theory Spec2Isabelle
  imports Complex_Main "HOL-Library.Char_ord" "HOL-Library.List_Lexorder" "HOL-Library.Multiset"
begin

section \<open>Python values used by lab\<close>

text \<open>
  Errors of the Python code are values. \<open>Critical\<close> is the record that
  \<open>logging.critical\<close> emits, \<open>Aborted\<close> the exit of \<open>tools.confirm_or_abort\<close>;
  the others are the exceptions of the interpreter.
\<close>

datatype error =
    AssertionError
  | Critical string
  | Aborted
  | ValueError
  | TypeError
  | AttributeError
  | ZeroDivisionError
  | IndexError

subsection \<open>Strings\<close>

definition isdigit :: "char \<Rightarrow> bool" where
  "isdigit c = (c \<in> set ''0123456789'')"

definition digit_char :: "nat \<Rightarrow> char" where
  "digit_char d = ''0123456789'' ! d"

text \<open>\<open>str(n)\<close> and \<open>'%d' % n\<close> for a non-negative integer.\<close>

fun str_nat :: "nat \<Rightarrow> string" where
  "str_nat n = (if n < 10 then [digit_char n] else str_nat (n div 10) @ [digit_char (n mod 10)])"

declare str_nat.simps [simp del]

text \<open>\<open>'%d' % n\<close> for any integer.\<close>

definition str_int :: "int \<Rightarrow> string" where
  "str_int i = (if i < 0 then CHR ''-'' # str_nat (nat (- i)) else str_nat (nat i))"

text \<open>\<open>'%02d' % n\<close>: at least two characters, padded with zeros on the left.\<close>

definition pad2 :: "nat \<Rightarrow> string" where
  "pad2 n = (if n < 10 then CHR ''0'' # str_nat n else str_nat n)"

text \<open>\<open>sep.join(xs)\<close>.\<close>

fun join :: "string \<Rightarrow> string list \<Rightarrow> string" where
  "join sep [] = []"
| "join sep [x] = x"
| "join sep (x # y # ys) = x @ sep @ join sep (y # ys)"

text \<open>\<open>s.endswith(t)\<close> and \<open>s.startswith(t)\<close>.\<close>

definition endswith :: "string \<Rightarrow> string \<Rightarrow> bool" where
  "endswith s t = (length t \<le> length s \<and> drop (length s - length t) s = t)"

definition startswith :: "string \<Rightarrow> string \<Rightarrow> bool" where
  "startswith s t = (take (length t) s = t)"

text \<open>\<open>os.path.join(a, *p)\<close> of posixpath.\<close>

definition path_join2 :: "string \<Rightarrow> string \<Rightarrow> string" where
  "path_join2 path b =
     (if startswith b ''/'' then b
      else if path = [] \<or> endswith path ''/'' then path @ b
      else path @ ''/'' @ b)"

definition path_join :: "string \<Rightarrow> string list \<Rightarrow> string" where
  "path_join a p = foldl path_join2 a p"

text \<open>\<open>xs.index(x)\<close>; \<open>None\<close> stands for the ValueError of a missing element.\<close>

fun index_of :: "'a \<Rightarrow> 'a list \<Rightarrow> nat option" where
  "index_of x [] = None"
| "index_of x (y # ys) =
     (if y = x then Some 0 else (case index_of x ys of None \<Rightarrow> None | Some i \<Rightarrow> Some (Suc i)))"

section \<open>lab/environments.py\<close>

subsection \<open>get_job_prefix\<close>

text \<open>
  \<^verbatim>\<open>
  def get_job_prefix(exp_name):
      assert exp_name
      escape_char = 'j' if exp_name[0].isdigit() else ''
      return ''.join([escape_char, exp_name, '-'])
  \<close>
\<close>

definition get_job_prefix :: "string \<Rightarrow> error + string" where
  "get_job_prefix exp_name =
     (if exp_name = [] then Inl AssertionError
      else let escape_char = (if isdigit (hd exp_name) then ''j'' else '''')
           in Inr (concat [escape_char, exp_name, ''-'']))"

subsection \<open>Steps, experiments and the grid environment\<close>

text \<open>
  Of a \<open>Step\<close> the environment reads \<open>name\<close> and \<open>_funcname\<close>; of the experiment its
  name, paths, steps, runs and the step names given on the command line
  (\<open>exp.args.steps\<close>). Python compares steps by identity; steps have unique names, so
  equality of the records is the same relation on the steps of one experiment.
\<close>

record step =
  step_name :: string
  funcname :: string

record Experiment =
  exp_name :: string
  exp_path :: string
  preprocess_exp_path :: string
  exp_steps :: "step list"
  exp_runs :: "string list"
  args_steps :: "string list"

text \<open>\<open>MAX_TASKS\<close> is \<open>float('inf')\<close> in the base class and 75000 in \<open>GkiGridEnvironment\<close>.\<close>

datatype max_tasks = Unbounded | AtMost int

record environment =
  queue :: string
  host_spec :: string
  priority :: int
  runs_per_task :: int
  email :: "string option"
  randomize_task_order :: bool
  extra_options :: string
  MAX_TASKS :: max_tasks

text \<open>The dictionaries that fill the two job templates.\<close>

record job_params =
  jp_errfile :: string
  jp_extra_options :: string
  jp_host_spec :: string
  jp_logfile :: string
  jp_name :: string
  jp_notification :: string
  jp_num_tasks :: int
  jp_priority :: int
  jp_queue :: string

record body_params =
  bp_num_tasks :: int
  bp_run_ids :: string

text \<open>
  The parts of the package that the environment uses and that are data or other modules:
  the two templates under \<open>lab/data\<close>, each with its \<open>%\<close> substitution, and
  \<open>Experiment.build\<close>, which the run loop calls with \<open>dry_run=True\<close> to add the runs.
  They are parameters of the model.
\<close>

record lab_data =
  header_template :: "job_params \<Rightarrow> string"
  body_template :: "body_params \<Rightarrow> string"
  exp_build :: "string \<Rightarrow> Experiment \<Rightarrow> Experiment"

text \<open>
  The process the environment runs in: \<open>os.getcwd()\<close>, \<open>sys.executable\<close>, \<open>sys.argv\<close>, the
  numbers that the generator of \<open>random\<close> draws, and what the user answers to a question.
\<close>

record process =
  getcwd :: string
  sys_executable :: string
  sys_argv :: "string list"
  random_draws :: "nat \<Rightarrow> nat"
  user_confirms :: "string \<Rightarrow> bool"

text \<open>
  What \<open>run_steps\<close> changes: the experiment (through \<open>build\<close>), the files and directories
  it writes, the commands it runs, the questions it asks, and how many random numbers
  have been drawn.
\<close>

record state =
  exp :: Experiment
  files :: "string \<rightharpoonup> string"
  dirs :: "string list"
  commands :: "(string list \<times> string) list"
  prompts :: "string list"
  rng_pos :: nat

subsection \<open>Helpers of lab.tools and of logging\<close>

text \<open>
  Modelled from the spec: the handler that \<open>lab.tools\<close> installs for \<open>logging\<close> is not in
  src/. The spec treats every critical record as a hard abort ("all fatal classes abort
  the current pipeline invocation entirely"), and the comment at the call in
  \<open>Fetcher.fetch_dir\<close> says the same ("Abort if an id cannot be read."). So
  \<open>logging.critical(msg)\<close> reports \<open>msg\<close> and ends the invocation.
\<close>

definition logging_critical :: "string \<Rightarrow> error + 'a" where
  "logging_critical msg = Inl (Critical msg)"

text \<open>
  Modelled from the spec: \<open>tools.makedirs\<close> and \<open>tools.run_command\<close> are not in src/;
  the first creates a directory, the second invokes the external command in \<open>cwd\<close>.
\<close>

definition makedirs :: "string \<Rightarrow> state \<Rightarrow> state" where
  "makedirs d s = s\<lparr>dirs := dirs s @ [d]\<rparr>"

definition run_command :: "string list \<Rightarrow> string \<Rightarrow> state \<Rightarrow> state" where
  "run_command cmd cwd s = s\<lparr>commands := commands s @ [(cmd, cwd)]\<rparr>"

text \<open>
  Modelled from the spec: \<open>tools.confirm_or_abort\<close> is not in src/. It asks the
  question ("require explicit confirmation", "a user-abortable prompt"); when the user
  confirms it returns, otherwise it aborts, as its name says.
\<close>

definition confirm_or_abort :: "process \<Rightarrow> string \<Rightarrow> state \<Rightarrow> state \<times> (error + unit)" where
  "confirm_or_abort p question s =
     (let s' = s\<lparr>prompts := prompts s @ [question]\<rparr>
      in if user_confirms p question then (s', Inr ()) else (s', Inl Aborted))"

definition path_exists :: "state \<Rightarrow> string \<Rightarrow> bool" where
  "path_exists s p = (case files s p of Some _ \<Rightarrow> True | None \<Rightarrow> p \<in> set (dirs s))"

subsection \<open>random.shuffle\<close>

text \<open>
  \<^verbatim>\<open>
  for i in reversed(xrange(1, len(x))):
      j = int(random() * (i+1))
      x[i], x[j] = x[j], x[i]
  \<close>
  The \<open>k\<close>-th draw \<open>rnd k\<close> stands for \<open>random()\<close>; \<open>j\<close> is any index from 0 to \<open>i\<close>.
\<close>

fun shuffle_loop :: "nat \<Rightarrow> (nat \<Rightarrow> nat) \<Rightarrow> nat \<Rightarrow> 'a list \<Rightarrow> 'a list" where
  "shuffle_loop 0 rnd k xs = xs"
| "shuffle_loop (Suc n) rnd k xs =
     (let i = Suc n; j = rnd k mod (i + 1)
      in shuffle_loop n rnd (k + 1) (xs[i := xs ! j, j := xs ! i]))"

definition shuffle :: "(nat \<Rightarrow> nat) \<Rightarrow> nat \<Rightarrow> 'a list \<Rightarrow> 'a list" where
  "shuffle rnd k xs = shuffle_loop (length xs - 1) rnd k xs"

subsection \<open>OracleGridEngineEnvironment\<close>

text \<open>
  \<open>_get_script_args\<close>: the command line without the step names, which are removed from
  the back; \<open>list.remove\<close> raises ValueError when the element is missing.
\<close>

fun remove_each :: "string list \<Rightarrow> string list \<Rightarrow> error + string list" where
  "remove_each [] commandline = Inr commandline"
| "remove_each (n # ns) commandline =
     (if n \<in> set commandline then remove_each ns (remove1 n commandline) else Inl ValueError)"

definition get_script_args :: "process \<Rightarrow> Experiment \<Rightarrow> error + string list" where
  "get_script_args p e =
     (let commandline = rev (drop 1 (sys_argv p));
          commandline = (if ''--all'' \<in> set commandline then remove1 ''--all'' commandline
                         else commandline)
      in case remove_each (args_steps e) commandline of
           Inl err \<Rightarrow> Inl err
         | Inr commandline \<Rightarrow> Inr (rev commandline))"

text \<open>
  \<^verbatim>\<open>
  def _get_job_name(self, step):
      return '%s%02d-%s' % (
          get_job_prefix(self.exp.name),
          self.exp.steps.index(step) + 1,
          step.name)
  \<close>
\<close>

definition get_job_name :: "Experiment \<Rightarrow> step \<Rightarrow> error + string" where
  "get_job_name e st =
     (case get_job_prefix (exp_name e) of
        Inl err \<Rightarrow> Inl err
      | Inr prefix \<Rightarrow>
          (case index_of st (exp_steps e) of
             None \<Rightarrow> Inl ValueError
           | Some i \<Rightarrow> Inr (prefix @ pad2 (i + 1) @ ''-'' @ step_name st)))"

text \<open>
  \<^verbatim>\<open>
  def _get_num_runs(self):
      num_runs = int(math.ceil(len(self.exp.runs) / float(self.runs_per_task)))
      if num_runs > self.MAX_TASKS:
          logging.critical('You are trying to submit a job with %d tasks, '
                           'but only %d are allowed.' %
                           (num_runs, self.MAX_TASKS))
      return num_runs
  \<close>
  \<open>float(self.runs_per_task)\<close> raises \<open>OverflowError\<close> for an integer that no double
  holds, of magnitude \<open>2 ^ 1024 - 2 ^ 970\<close> or more; for the others, and fewer than
  \<open>2 ^ 53\<close> runs, the double that Python computes has the same ceiling as the exact
  quotient. The definition is the computation in this range, with the exact quotient.
\<close>

definition capacity_message :: "int \<Rightarrow> int \<Rightarrow> string" where
  "capacity_message num_runs allowed =
     ''You are trying to submit a job with '' @ str_int num_runs @
     '' tasks, but only '' @ str_int allowed @ '' are allowed.''"

definition get_num_runs :: "environment \<Rightarrow> Experiment \<Rightarrow> error + int" where
  "get_num_runs env e =
     (if runs_per_task env = 0 then Inl ZeroDivisionError
      else let num_runs = \<lceil>real (length (exp_runs e)) / real_of_int (runs_per_task env)\<rceil>
           in case MAX_TASKS env of
                Unbounded \<Rightarrow> Inr num_runs
              | AtMost m \<Rightarrow>
                  if num_runs > m then logging_critical (capacity_message num_runs m)
                  else Inr num_runs)"

definition get_num_tasks :: "environment \<Rightarrow> Experiment \<Rightarrow> step \<Rightarrow> error + int" where
  "get_num_tasks env e st = (if funcname st = ''run'' then get_num_runs env e else Inr 1)"

definition get_job_params :: "environment \<Rightarrow> Experiment \<Rightarrow> step \<Rightarrow> error + job_params" where
  "get_job_params env e st =
     (case get_job_name e st of
        Inl err \<Rightarrow> Inl err
      | Inr name \<Rightarrow>
          (case get_num_tasks env e st of
             Inl err \<Rightarrow> Inl err
           | Inr num_tasks \<Rightarrow>
               Inr \<lparr>jp_errfile = ''driver.err'',
                    jp_extra_options = extra_options env,
                    jp_host_spec = host_spec env,
                    jp_logfile = ''driver.log'',
                    jp_name = name,
                    jp_notification = ''#$ -m n'',
                    jp_num_tasks = num_tasks,
                    jp_priority = priority env,
                    jp_queue = queue env\<rparr>))"

definition get_job_header ::
  "lab_data \<Rightarrow> environment \<Rightarrow> Experiment \<Rightarrow> step \<Rightarrow> bool \<Rightarrow> error + string" where
  "get_job_header lab env e st is_last =
     (case get_job_params env e st of
        Inl err \<Rightarrow> Inl err
      | Inr params \<Rightarrow>
          (case email env of
             Some addr \<Rightarrow>
               if is_last \<and> 0 < length addr
               then Inr (header_template lab
                      (params\<lparr>jp_notification := ''#$ -M '' @ addr @ [CHR 0x0A] @ ''#$ -m e''\<rparr>))
               else Inr (header_template lab params)
           | None \<Rightarrow> Inr (header_template lab params)))"

text \<open>
  \<^verbatim>\<open>
  def _get_main_job_body(self):
      num_tasks = self._get_num_runs()
      body_params = dict(num_tasks=num_tasks, run_ids='')
      if self.randomize_task_order:
          run_ids = [str(i + 1) for i in xrange(num_tasks)]
          random.shuffle(run_ids)
          body_params['run_ids'] = ' '.join(run_ids)
      return pkgutil.get_data('lab', 'data/grid-job-body-template') % body_params
  \<close>
  \<open>get_main_job_body_params\<close> is the dictionary \<open>body_params\<close> at the return, with the
  number of draws that have been used.
\<close>

definition run_id_list :: "int \<Rightarrow> string list" where
  "run_id_list num_tasks = map (\<lambda>i. str_int (int i + 1)) [0..<nat num_tasks]"

definition get_main_job_body_params ::
  "process \<Rightarrow> environment \<Rightarrow> Experiment \<Rightarrow> nat \<Rightarrow> error + (body_params \<times> nat)" where
  "get_main_job_body_params p env e k =
     (case get_num_runs env e of
        Inl err \<Rightarrow> Inl err
      | Inr num_tasks \<Rightarrow>
          if randomize_task_order env
          then let run_ids = shuffle (random_draws p) k (run_id_list num_tasks)
               in Inr (\<lparr>bp_num_tasks = num_tasks, bp_run_ids = join '' '' run_ids\<rparr>,
                       k + (length run_ids - 1))
          else Inr (\<lparr>bp_num_tasks = num_tasks, bp_run_ids = []\<rparr>, k))"

definition get_main_job_body ::
  "lab_data \<Rightarrow> process \<Rightarrow> environment \<Rightarrow> state \<Rightarrow> state \<times> (error + string)" where
  "get_main_job_body lab p env s =
     (case get_main_job_body_params p env (exp s) (rng_pos s) of
        Inl err \<Rightarrow> (s, Inl err)
      | Inr (params, k) \<Rightarrow> (s\<lparr>rng_pos := k\<rparr>, Inr (body_template lab params)))"

definition get_job_body ::
  "lab_data \<Rightarrow> process \<Rightarrow> environment \<Rightarrow> step \<Rightarrow> state \<Rightarrow> state \<times> (error + string)" where
  "get_job_body lab p env st s =
     (if funcname st = ''run'' then get_main_job_body lab p env s
      else let python = (if sys_executable p = [] then ''python'' else sys_executable p)
           in case sys_argv p of
                [] \<Rightarrow> (s, Inl IndexError)
              | script # _ \<Rightarrow>
                  (case get_script_args p (exp s) of
                     Inl err \<Rightarrow> (s, Inl err)
                   | Inr args \<Rightarrow>
                       (s, Inr (''cd '' @ getcwd p @ [CHR 0x0A] @ python @ '' '' @ script @ '' '' @
                                join '' '' args @ '' '' @ step_name st @ [CHR 0x0A]))))"

definition get_job ::
  "lab_data \<Rightarrow> process \<Rightarrow> environment \<Rightarrow> step \<Rightarrow> bool \<Rightarrow> state \<Rightarrow> state \<times> (error + string)" where
  "get_job lab p env st is_last s =
     (case get_job_header lab env (exp s) st is_last of
        Inl err \<Rightarrow> (s, Inl err)
      | Inr header \<Rightarrow>
          (case get_job_body lab p env st s of
             (s', Inl err) \<Rightarrow> (s', Inl err)
           | (s', Inr body) \<Rightarrow> (s', Inr (header @ [CHR 0x0A, CHR 0x0A] @ body))))"

text \<open>
  \<open>run_steps\<close>, lines 261 to 271 of the loop body: \<open>build\<close> adds the runs, and the step
  \<open>run-preprocess-exp\<close> has its own job directory.
\<close>

definition prepare_step :: "lab_data \<Rightarrow> step \<Rightarrow> state \<Rightarrow> state \<times> string" where
  "prepare_step lab st s =
     (let (s1, job_dir) =
            (if step_name st = ''run-preprocess-exp''
             then let s' = s\<lparr>exp := exp_build lab ''preprocess'' (exp s)\<rparr>;
                      job_dir = preprocess_exp_path (exp s')
                  in (makedirs job_dir s', job_dir)
             else (s, exp_path (exp s)));
          s2 = (if step_name st = ''run-search-exp''
                then s1\<lparr>exp := exp_build lab ''search'' (exp s1)\<rparr> else s1)
      in (s2, job_dir))"

definition resubmission_question :: "string \<Rightarrow> string" where
  "resubmission_question submitted_file =
     ''The file '' @ [CHR 0x22] @ submitted_file @ [CHR 0x22] @
     '' already exists so it seems the experiment has already been submitted. '' @
     ''Are you sure you want to submit it again?''"

definition marker_text :: string where
  "marker_text = ''This file is created when the experiment is submitted to the queue.''"

text \<open>
  The rest of the loop body, lines 272 to 293. \<open>open(..., 'w')\<close> creates the job file (or
  empties it) before \<open>_get_job\<close> computes the text that is written to it. The result is
  the job name, which the next step waits for.
  \<^verbatim>\<open>
  if step._funcname == 'run':
      submitted_file = os.path.join(job_dir, 'submitted')
      if os.path.exists(submitted_file):
          tools.confirm_or_abort(...)
  job_name = self._get_job_name(step)
  with open(os.path.join(job_dir, job_name), 'w') as f:
      f.write(self._get_job(step, is_last=(number == len(steps))))
  submit = ['qsub']
  if prev_job_name:
      submit.extend(['-hold_jid', prev_job_name])
  submit.append(job_name)
  tools.run_command(submit, cwd=job_dir)
  if step._funcname == 'run':
      with open(submitted_file, 'w') as f:
          f.write('This file is created when ...')
  prev_job_name = job_name
  \<close>
\<close>

definition run_steps_body ::
  "lab_data \<Rightarrow> process \<Rightarrow> environment \<Rightarrow> bool \<Rightarrow> string option \<Rightarrow> step \<Rightarrow> state
     \<Rightarrow> state \<times> (error + string)" where
  "run_steps_body lab p env is_last prev_job_name st s =
     (case prepare_step lab st s of
        (s1, job_dir) \<Rightarrow>
          let submitted_file = path_join job_dir [''submitted'']
          in case (if funcname st = ''run'' \<and> path_exists s1 submitted_file
                   then confirm_or_abort p (resubmission_question submitted_file) s1
                   else (s1, Inr ())) of
               (s2, Inl err) \<Rightarrow> (s2, Inl err)
             | (s2, Inr _) \<Rightarrow>
                 (case get_job_name (exp s2) st of
                    Inl err \<Rightarrow> (s2, Inl err)
                  | Inr job_name \<Rightarrow>
                      let job_file = path_join job_dir [job_name];
                          s3 = s2\<lparr>files := (files s2)(job_file \<mapsto> [])\<rparr>
                      in case get_job lab p env st is_last s3 of
                           (s4, Inl err) \<Rightarrow> (s4, Inl err)
                         | (s4, Inr job) \<Rightarrow>
                             let s5 = s4\<lparr>files := (files s4)(job_file \<mapsto> job)\<rparr>;
                                 submit = [''qsub''] @
                                   (case prev_job_name of
                                      None \<Rightarrow> []
                                    | Some pj \<Rightarrow> if pj = [] then [] else [''-hold_jid'', pj]) @
                                   [job_name];
                                 s6 = run_command submit job_dir s5;
                                 s7 = (if funcname st = ''run''
                                       then s6\<lparr>files := (files s6)(submitted_file \<mapsto> marker_text)\<rparr>
                                       else s6)
                             in (s7, Inr job_name)))"

text \<open>
  The loop of \<open>run_steps\<close>: \<open>number\<close> counts the steps from 1, \<open>num_steps\<close> is \<open>len(steps)\<close>.
  An error leaves the loop, and the steps that follow are not reached.
\<close>

fun run_steps_loop ::
  "lab_data \<Rightarrow> process \<Rightarrow> environment \<Rightarrow> nat \<Rightarrow> nat \<Rightarrow> string option \<Rightarrow> step list \<Rightarrow> state
     \<Rightarrow> state \<times> error option" where
  "run_steps_loop lab p env num_steps number prev_job_name [] s = (s, None)"
| "run_steps_loop lab p env num_steps number prev_job_name (st # rest) s =
     (case run_steps_body lab p env (number = num_steps) prev_job_name st s of
        (s', Inl err) \<Rightarrow> (s', Some err)
      | (s', Inr job_name) \<Rightarrow> run_steps_loop lab p env num_steps (Suc number) (Some job_name) rest s')"

definition run_steps ::
  "lab_data \<Rightarrow> process \<Rightarrow> environment \<Rightarrow> step list \<Rightarrow> state \<Rightarrow> state \<times> error option" where
  "run_steps lab p env steps s =
     run_steps_loop lab p env (length steps) 1 None steps (makedirs (exp_path (exp s)) s)"

text \<open>The job names of all steps of an experiment, in the order of the steps.\<close>

definition job_names :: "Experiment \<Rightarrow> (error + string) list" where
  "job_names e = map (get_job_name e) (exp_steps e)"

text \<open>
  The run ids that a body embeds: the words of the value of \<open>run_ids\<close>, as the shell that
  runs the body splits them.
\<close>

fun split_words :: "string \<Rightarrow> string \<Rightarrow> string list" where
  "split_words acc [] = (if acc = [] then [] else [acc])"
| "split_words acc (c # cs) =
     (if c = CHR '' '' then (if acc = [] then split_words [] cs else acc # split_words [] cs)
      else split_words (acc @ [c]) cs)"

definition embedded_run_ids :: "body_params \<Rightarrow> string list" where
  "embedded_run_ids bp = split_words [] (bp_run_ids bp)"

section \<open>lab/fetcher.py\<close>

subsection \<open>Property stores\<close>

text \<open>
  The values of a property file: \<open>None\<close>, truth values, integers, strings, lists and
  nested stores.
\<close>

datatype pval =
    PNone
  | PBool bool
  | PNum int
  | PStr string
  | PList "pval list"
  | PDict "(string \<times> pval) list"

type_synonym props = "(string \<times> pval) list"

text \<open>
  What the aggregator reads and changes: the property files, the directories it makes,
  the run directories it copies and the records it logs.
\<close>

record disk =
  prop_files :: "string \<rightharpoonup> props"
  made_dirs :: "string list"
  copied :: "(string \<times> string) list"
  info_log :: "string list"

text \<open>
  Modelled from the spec: \<open>tools.Properties\<close> is not in src/. It is the Property Store
  of the spec: "an ordered key to value text record, loadable/persistable", "keys are
  unique within one store", "merge overwrites any existing key", and persist followed by
  load gives the same store. A store made for a file name holds the content of the file
  when the file exists and is empty otherwise; \<open>write\<close> puts the store into its file. A
  file is the store it holds, so equal stores are the same bytes.
\<close>

record properties =
  filename :: string
  items :: props

definition load_properties :: "string \<Rightarrow> disk \<Rightarrow> properties" where
  "load_properties f w =
     \<lparr>filename = f, items = (case prop_files w f of None \<Rightarrow> [] | Some kvs \<Rightarrow> kvs)\<rparr>"

definition props_get :: "properties \<Rightarrow> string \<Rightarrow> pval option" where
  "props_get ps k = map_of (items ps) k"

definition set_item :: "string \<Rightarrow> pval \<Rightarrow> props \<Rightarrow> props" where
  "set_item k v kvs =
     (if k \<in> fst ` set kvs then map (\<lambda>(a, b). if a = k then (a, v) else (a, b)) kvs
      else kvs @ [(k, v)])"

definition props_set :: "string \<Rightarrow> pval \<Rightarrow> properties \<Rightarrow> properties" where
  "props_set k v ps = ps\<lparr>items := set_item k v (items ps)\<rparr>"

definition props_write :: "properties \<Rightarrow> disk \<Rightarrow> disk" where
  "props_write ps w = w\<lparr>prop_files := (prop_files w)(filename ps \<mapsto> items ps)\<rparr>"

text \<open>
  Modelled from the spec: \<open>tools.makedirs\<close> and \<open>tools.fast_updatetree\<close> are not in
  src/; the second copies the whole run directory into the destination tree. Both are
  recorded as operations.
\<close>

definition make_dirs :: "string \<Rightarrow> disk \<Rightarrow> disk" where
  "make_dirs d w = w\<lparr>made_dirs := made_dirs w @ [d]\<rparr>"

definition fast_updatetree :: "string \<Rightarrow> string \<Rightarrow> disk \<Rightarrow> disk" where
  "fast_updatetree src dst w = w\<lparr>copied := copied w @ [(src, dst)]\<rparr>"

definition logging_info :: "string \<Rightarrow> disk \<Rightarrow> disk" where
  "logging_info msg w = w\<lparr>info_log := info_log w @ [msg]\<rparr>"

subsection \<open>Python on the value of id\<close>

text \<open>\<open>not v\<close> is false for these values.\<close>

fun truthy :: "pval \<Rightarrow> bool" where
  "truthy PNone = False"
| "truthy (PBool b) = b"
| "truthy (PNum n) = (n \<noteq> 0)"
| "truthy (PStr s) = (s \<noteq> [])"
| "truthy (PList xs) = (xs \<noteq> [])"
| "truthy (PDict kvs) = (kvs \<noteq> [])"

text \<open>
  The elements that \<open>*run_id\<close> and \<open>'-'.join(run_id)\<close> iterate over: a list gives its
  elements, a string its characters, a store its keys; a number is not iterable.
\<close>

fun elements :: "pval \<Rightarrow> error + pval list" where
  "elements (PList xs) = Inr xs"
| "elements (PStr s) = Inr (map (\<lambda>c. PStr [c]) s)"
| "elements (PDict kvs) = Inr (map (\<lambda>kv. PStr (fst kv)) kvs)"
| "elements v = Inl TypeError"

text \<open>The strings among the elements; \<open>err\<close> is raised at the first element that is none.\<close>

fun strings :: "error \<Rightarrow> pval list \<Rightarrow> error + string list" where
  "strings err [] = Inr []"
| "strings err (PStr s # vs) =
     (case strings err vs of Inl e \<Rightarrow> Inl e | Inr ss \<Rightarrow> Inr (s # ss))"
| "strings err (v # vs) = Inl err"

text \<open>\<open>os.path.join(eval_dir, *run_id)\<close> and \<open>'-'.join(run_id)\<close>.\<close>

definition join_dest_dir :: "string \<Rightarrow> pval \<Rightarrow> error + string" where
  "join_dest_dir eval_dir run_id =
     (case elements run_id of
        Inl err \<Rightarrow> Inl err
      | Inr vs \<Rightarrow>
          (case strings AttributeError vs of
             Inl err \<Rightarrow> Inl err
           | Inr segs \<Rightarrow> Inr (path_join eval_dir segs)))"

definition join_run_id :: "pval \<Rightarrow> error + string" where
  "join_run_id run_id =
     (case elements run_id of
        Inl err \<Rightarrow> Inl err
      | Inr vs \<Rightarrow>
          (case strings TypeError vs of
             Inl err \<Rightarrow> Inl err
           | Inr segs \<Rightarrow> Inr (join ''-'' segs)))"

subsection \<open>Fetcher\<close>

text \<open>
  \<^verbatim>\<open>
  def fetch_dir(self, run_dir, eval_dir, copy_all=False):
      prop_file = os.path.join(run_dir, 'properties')
      props = tools.Properties(filename=prop_file)
      run_id = props.get('id')
      # Abort if an id cannot be read.
      if not run_id:
          logging.critical('id is not set in %s.' % prop_file)
      dest_dir = os.path.join(eval_dir, *run_id)
      if copy_all:
          tools.makedirs(dest_dir)
          tools.fast_updatetree(run_dir, dest_dir)
      return run_id, props
  \<close>
\<close>

definition id_message :: "string \<Rightarrow> string" where
  "id_message prop_file = ''id is not set in '' @ prop_file @ ''.''"

definition read_id :: "properties \<Rightarrow> error + pval" where
  "read_id ps =
     (case props_get ps ''id'' of
        None \<Rightarrow> logging_critical (id_message (filename ps))
      | Some run_id \<Rightarrow>
          if truthy run_id then Inr run_id else logging_critical (id_message (filename ps)))"

definition fetch_dir ::
  "string \<Rightarrow> string \<Rightarrow> bool \<Rightarrow> disk \<Rightarrow> disk \<times> (error + (pval \<times> properties))" where
  "fetch_dir run_dir eval_dir copy_all w =
     (let prop_file = path_join run_dir [''properties''];
          ps = load_properties prop_file w
      in case read_id ps of
           Inl err \<Rightarrow> (w, Inl err)
         | Inr run_id \<Rightarrow>
             (case join_dest_dir eval_dir run_id of
                Inl err \<Rightarrow> (w, Inl err)
              | Inr dest_dir \<Rightarrow>
                  (if copy_all
                   then (fast_updatetree run_dir dest_dir (make_dirs dest_dir w), Inr (run_id, ps))
                   else (w, Inr (run_id, ps)))))"

text \<open>\<open>'%6d' % n\<close>: the number, padded with blanks on the left to six characters.\<close>

definition pad6 :: "nat \<Rightarrow> string" where
  "pad6 n = replicate (6 - length (str_nat n)) CHR '' '' @ str_nat n"

text \<open>The two records that \<open>__call__\<close> logs with \<open>logging.info\<close>.\<close>

definition fetching_message :: "string \<Rightarrow> string \<Rightarrow> string" where
  "fetching_message exp_dir eval_dir = ''Fetching files from '' @ exp_dir @ '' -> '' @ eval_dir"

definition progress_message :: "nat \<Rightarrow> nat \<Rightarrow> string" where
  "progress_message index total_dirs = ''Fetching: '' @ pad6 index @ ''/'' @ str_nat total_dirs"

text \<open>
  The loop of \<open>__call__\<close>. \<open>combined\<close> is the combined store, \<open>None\<close> when
  \<open>write_combined_props\<close> is false and the store is never made.
  \<^verbatim>\<open>
  for index, run_dir in enumerate(run_dirs, 1):
      logging.info('Fetching: %6d/%d' % (index, total_dirs))
      run_id, props = self.fetch_dir(run_dir, eval_dir, copy_all=copy_all)
      if write_combined_props:
          combined_props['-'.join(run_id)] = props
  \<close>
\<close>

fun fetch_loop ::
  "string \<Rightarrow> bool \<Rightarrow> nat \<Rightarrow> nat \<Rightarrow> string list \<Rightarrow> properties option \<Rightarrow> disk
     \<Rightarrow> disk \<times> (error + properties option)" where
  "fetch_loop eval_dir copy_all total_dirs index [] combined w = (w, Inr combined)"
| "fetch_loop eval_dir copy_all total_dirs index (run_dir # rest) combined w =
     (let w1 = logging_info (progress_message index total_dirs) w
      in case fetch_dir run_dir eval_dir copy_all w1 of
           (w2, Inl err) \<Rightarrow> (w2, Inl err)
         | (w2, Inr (run_id, ps)) \<Rightarrow>
             (case combined of
                None \<Rightarrow> fetch_loop eval_dir copy_all total_dirs (Suc index) rest None w2
              | Some c \<Rightarrow>
                  (case join_run_id run_id of
                     Inl err \<Rightarrow> (w2, Inl err)
                   | Inr key \<Rightarrow>
                       fetch_loop eval_dir copy_all total_dirs (Suc index) rest
                         (Some (props_set key (PDict (items ps)) c)) w2)))"

text \<open>
  \<^verbatim>\<open>
  def __call__(self, exp_dir, eval_dir=None, copy_all=False, write_combined_props=True):
      exp_props = tools.Properties(filename=os.path.join(exp_dir, 'properties'))
      assert not exp_dir.endswith('/')
      eval_dir = eval_dir or exp_dir + '-eval'
      logging.info('Fetching files from %s -> %s' % (exp_dir, eval_dir))
      if write_combined_props:
          combined_props_filename = os.path.join(eval_dir, 'properties')
          combined_props = tools.Properties(filename=combined_props_filename)
      run_dirs = sorted(glob(os.path.join(exp_dir, 'runs-*-*', '*')))
      total_dirs = len(run_dirs)
      for ...
      tools.makedirs(eval_dir)
      if write_combined_props:
          combined_props.write()
  \<close>
  \<open>glob\<close> gives the paths that match a pattern; the store \<open>exp_props\<close> is read and not
  used.
\<close>

definition effective_eval_dir :: "string \<Rightarrow> string option \<Rightarrow> string" where
  "effective_eval_dir exp_dir eval_dir =
     (case eval_dir of
        None \<Rightarrow> exp_dir @ ''-eval''
      | Some d \<Rightarrow> if d = [] then exp_dir @ ''-eval'' else d)"

definition run_dirs_of :: "(string \<Rightarrow> string list) \<Rightarrow> string \<Rightarrow> string list" where
  "run_dirs_of glob exp_dir = sort (glob (path_join exp_dir [''runs-*-*'', ''*'']))"

definition fetcher_call ::
  "(string \<Rightarrow> string list) \<Rightarrow> string \<Rightarrow> string option \<Rightarrow> bool \<Rightarrow> bool \<Rightarrow> disk
     \<Rightarrow> disk \<times> error option" where
  "fetcher_call glob exp_dir eval_dir_arg copy_all write_combined_props w =
     (if endswith exp_dir ''/'' then (w, Some AssertionError)
      else let eval_dir = effective_eval_dir exp_dir eval_dir_arg;
               w1 = logging_info (fetching_message exp_dir eval_dir) w;
               combined = (if write_combined_props
                           then Some (load_properties (path_join eval_dir [''properties'']) w1)
                           else None);
               run_dirs = run_dirs_of glob exp_dir
           in case fetch_loop eval_dir copy_all (length run_dirs) 1 run_dirs combined w1 of
                (w2, Inl err) \<Rightarrow> (w2, Some err)
              | (w2, Inr c) \<Rightarrow>
                  (case c of
                     None \<Rightarrow> (make_dirs eval_dir w2, None)
                   | Some cp \<Rightarrow> (props_write cp (make_dirs eval_dir w2), None)))"

section \<open>Definitions for the statements\<close>

text \<open>
  Reading a decimal numeral back, to show that \<open>str_nat\<close> and \<open>pad2\<close> lose nothing.
\<close>

definition digit_val :: "char \<Rightarrow> nat" where
  "digit_val c = of_char c - 48"

definition nat_of_str :: "string \<Rightarrow> nat" where
  "nat_of_str s = foldl (\<lambda>acc c. 10 * acc + digit_val c) 0 s"

text \<open>The prefix of the job names of an experiment with a non-empty name.\<close>

definition job_prefix :: "Experiment \<Rightarrow> string" where
  "job_prefix e = (if isdigit (hd (exp_name e)) then ''j'' else []) @ exp_name e @ ''-''"

text \<open>
  The number of tasks that the spec gives for a run step, \<open>ceil(run_count / runs_per_task)\<close>,
  and the comparison with \<open>MAX_TASKS\<close>.
\<close>

definition task_count :: "environment \<Rightarrow> Experiment \<Rightarrow> int" where
  "task_count env e = \<lceil>real (length (exp_runs e)) / real_of_int (runs_per_task env)\<rceil>"

definition exceeds_max_tasks :: "environment \<Rightarrow> int \<Rightarrow> bool" where
  "exceeds_max_tasks env n = (case MAX_TASKS env of Unbounded \<Rightarrow> False | AtMost m \<Rightarrow> n > m)"

subsection \<open>Concrete experiments and environments\<close>

text \<open>The experiment \<open>foo\<close> of the spec, with the steps build, run and report.\<close>

definition build_step :: step where
  "build_step = \<lparr>step_name = ''build'', funcname = ''build''\<rparr>"

definition run_step :: step where
  "run_step = \<lparr>step_name = ''run'', funcname = ''run''\<rparr>"

definition report_step :: step where
  "report_step = \<lparr>step_name = ''report'', funcname = ''call''\<rparr>"

definition foo_exp :: Experiment where
  "foo_exp = \<lparr>exp_name = ''foo'', exp_path = ''/exp/foo'', preprocess_exp_path = ''/exp/foo-p'',
     exp_steps = [build_step, run_step, report_step],
     exp_runs = [''r1'', ''r2'', ''r3''], args_steps = []\<rparr>"

text \<open>An experiment with one hundred steps.\<close>

definition numbered_step :: "nat \<Rightarrow> step" where
  "numbered_step n = \<lparr>step_name = CHR ''s'' # str_nat n, funcname = ''call''\<rparr>"

definition long_exp :: Experiment where
  "long_exp = \<lparr>exp_name = ''foo'', exp_path = ''/exp/foo'', preprocess_exp_path = ''/exp/foo-p'',
     exp_steps = map numbered_step [1..<101],
     exp_runs = [], args_steps = []\<rparr>"

text \<open>\<open>GkiGridEnvironment\<close> with its defaults and a given number of runs per task.\<close>

definition gki_env :: "int \<Rightarrow> environment" where
  "gki_env rpt = \<lparr>queue = ''opteron_core.q'', host_spec = ''## (not used)'', priority = 0,
     runs_per_task = rpt, email = None, randomize_task_order = True,
     extra_options = ''## (not used)'', MAX_TASKS = AtMost 75000\<rparr>"

text \<open>An experiment with 2001 runs.\<close>

definition big_exp :: Experiment where
  "big_exp = foo_exp\<lparr>exp_runs := replicate 2001 ''run-dir''\<rparr>"

text \<open>
  A process whose generator always draws 0 and whose user declines every question; the
  package with templates that show the job name and the run ids, and a \<open>build\<close> that
  leaves the experiment as it is.
\<close>

definition proc0 :: process where
  "proc0 = \<lparr>getcwd = ''/home/lab'', sys_executable = ''/usr/bin/python'',
     sys_argv = [''exp.py'', ''--all''], random_draws = (\<lambda>k. 0), user_confirms = (\<lambda>q. False)\<rparr>"

definition lab0 :: lab_data where
  "lab0 = \<lparr>header_template = jp_name, body_template = bp_run_ids, exp_build = (\<lambda>stage e. e)\<rparr>"

text \<open>An environment that allows two tasks.\<close>

definition small_env :: environment where
  "small_env = (gki_env 1)\<lparr>MAX_TASKS := AtMost 2\<rparr>"

text \<open>
  The state before anything is submitted, and the state in which the marker file of an
  earlier submission exists.
\<close>

definition state0 :: state where
  "state0 = \<lparr>exp = foo_exp, files = Map.empty, dirs = [], commands = [], prompts = [], rng_pos = 0\<rparr>"

definition submitted_state :: state where
  "submitted_state = state0\<lparr>files := [''/exp/foo/submitted'' \<mapsto> marker_text]\<rparr>"

subsection \<open>Run directories and their ids\<close>

text \<open>
  The property file of a run directory, as \<open>fetch_dir\<close> names it, and the run
  directories for which \<open>not run_id\<close> holds: no property file, no \<open>id\<close> key, or an
  \<open>id\<close> that is empty.
\<close>

definition prop_file_of :: "string \<Rightarrow> string" where
  "prop_file_of run_dir = path_join run_dir [''properties'']"

definition lacks_id :: "disk \<Rightarrow> string \<Rightarrow> bool" where
  "lacks_id w run_dir =
     (case prop_files w (prop_file_of run_dir) of
        None \<Rightarrow> True
      | Some kvs \<Rightarrow> (case map_of kvs ''id'' of None \<Rightarrow> True | Some v \<Rightarrow> \<not> truthy v))"

text \<open>
  A well-formed id is a non-empty list of strings; \<open>id_segments\<close> gives its segments.
\<close>

fun is_str :: "pval \<Rightarrow> bool" where
  "is_str (PStr s) = True"
| "is_str v = False"

fun the_str :: "pval \<Rightarrow> string" where
  "the_str (PStr s) = s"
| "the_str v = []"

definition id_segments :: "disk \<Rightarrow> string \<Rightarrow> string list option" where
  "id_segments w run_dir =
     (case prop_files w (prop_file_of run_dir) of
        None \<Rightarrow> None
      | Some kvs \<Rightarrow>
          (case map_of kvs ''id'' of
             Some (PList vs) \<Rightarrow> if vs \<noteq> [] \<and> list_all is_str vs then Some (map the_str vs) else None
           | _ \<Rightarrow> None))"

definition good_id :: "disk \<Rightarrow> string \<Rightarrow> bool" where
  "good_id w run_dir = (case id_segments w run_dir of None \<Rightarrow> False | Some _ \<Rightarrow> True)"

text \<open>
  What a run directory with a well-formed id adds to the combined store: the key made of
  the segments and the store of the run.
\<close>

definition run_store :: "disk \<Rightarrow> string \<Rightarrow> props" where
  "run_store w run_dir = (case prop_files w (prop_file_of run_dir) of None \<Rightarrow> [] | Some kvs \<Rightarrow> kvs)"

definition run_key :: "disk \<Rightarrow> string \<Rightarrow> string" where
  "run_key w run_dir = (case id_segments w run_dir of None \<Rightarrow> [] | Some segs \<Rightarrow> join ''-'' segs)"

definition run_entry :: "disk \<Rightarrow> string \<Rightarrow> string \<times> pval" where
  "run_entry w run_dir = (run_key w run_dir, PDict (run_store w run_dir))"

subsection \<open>The loop of the fetcher as a function of the property files\<close>

text \<open>
  \<open>dir_entry\<close> is the key and the value that one turn of the loop of \<open>__call__\<close> puts
  into the combined store, or the error that ends the turn; \<open>collect\<close> does this for
  the run directories in order. They are proved below to describe \<open>fetch_loop\<close>.
\<close>

definition dir_entry :: "(string \<rightharpoonup> props) \<Rightarrow> string \<Rightarrow> string \<Rightarrow> error + (string \<times> pval)" where
  "dir_entry P eval_dir run_dir =
     (let f = path_join run_dir [''properties''];
          kvs = (case P f of None \<Rightarrow> [] | Some kvs \<Rightarrow> kvs)
      in case read_id \<lparr>filename = f, items = kvs\<rparr> of
           Inl e \<Rightarrow> Inl e
         | Inr v \<Rightarrow>
             (case join_dest_dir eval_dir v of
                Inl e \<Rightarrow> Inl e
              | Inr _ \<Rightarrow>
                  (case join_run_id v of
                     Inl e \<Rightarrow> Inl e
                   | Inr k \<Rightarrow> Inr (k, PDict kvs))))"

fun collect :: "(string \<rightharpoonup> props) \<Rightarrow> string \<Rightarrow> string list \<Rightarrow> error + (string \<times> pval) list" where
  "collect P eval_dir [] = Inr []"
| "collect P eval_dir (d # ds) =
     (case dir_entry P eval_dir d of
        Inl e \<Rightarrow> Inl e
      | Inr kv \<Rightarrow>
          (case collect P eval_dir ds of Inl e \<Rightarrow> Inl e | Inr kvs \<Rightarrow> Inr (kv # kvs)))"

text \<open>
  Setting a list of keys in order, in a store and in its items.
\<close>

definition set_all :: "(string \<times> pval) list \<Rightarrow> properties \<Rightarrow> properties" where
  "set_all kvs cb = foldl (\<lambda>c kv. props_set (fst kv) (snd kv) c) cb kvs"

definition set_items :: "(string \<times> pval) list \<Rightarrow> props \<Rightarrow> props" where
  "set_items kvs xs = foldl (\<lambda>xs kv. set_item (fst kv) (snd kv) xs) xs kvs"

text \<open>
  The file of the combined store and its content after a call over the run directories
  \<open>ds\<close>, all with well-formed ids.
\<close>

definition combined_file :: "string \<Rightarrow> string option \<Rightarrow> string" where
  "combined_file exp_dir eda = path_join (effective_eval_dir exp_dir eda) [''properties'']"

definition merged :: "disk \<Rightarrow> string \<Rightarrow> string list \<Rightarrow> props" where
  "merged w f ds = set_items (map (run_entry w) ds) (items (load_properties f w))"

subsection \<open>Concrete run directories\<close>

text \<open>
  Three run directories of the experiment \<open>/exp/foo\<close>, found by \<open>glob\<close> out of order.
  In \<open>three_runs\<close> each property file holds an id and \<open>coverage\<close>, in \<open>bare_runs\<close> only
  \<open>coverage\<close>, and in \<open>broken_runs\<close> the second run has no id.
\<close>

definition run_props :: "string \<Rightarrow> string \<Rightarrow> props" where
  "run_props a b = [(''id'', PList [PStr a, PStr b]), (''coverage'', PNum 1)]"

definition three_glob :: "string \<Rightarrow> string list" where
  "three_glob pattern =
     (if pattern = ''/exp/foo/runs-*-*/*''
      then [''/exp/foo/runs-00001-00100/00003'', ''/exp/foo/runs-00001-00100/00001'',
            ''/exp/foo/runs-00001-00100/00002'']
      else [])"

definition three_runs :: disk where
  "three_runs =
     \<lparr>prop_files = [''/exp/foo/runs-00001-00100/00001/properties'' \<mapsto> run_props ''a'' ''1'',
                    ''/exp/foo/runs-00001-00100/00002/properties'' \<mapsto> run_props ''a'' ''2'',
                    ''/exp/foo/runs-00001-00100/00003/properties'' \<mapsto> run_props ''b'' ''1''],
      made_dirs = [], copied = [], info_log = []\<rparr>"

definition bare_runs :: disk where
  "bare_runs =
     \<lparr>prop_files = [''/exp/foo/runs-00001-00100/00001/properties'' \<mapsto> [(''coverage'', PNum 1)],
                    ''/exp/foo/runs-00001-00100/00002/properties'' \<mapsto> [(''coverage'', PNum 1)],
                    ''/exp/foo/runs-00001-00100/00003/properties'' \<mapsto> [(''coverage'', PNum 1)]],
      made_dirs = [], copied = [], info_log = []\<rparr>"

definition broken_runs :: disk where
  "broken_runs =
     \<lparr>prop_files = [''/exp/foo/runs-00001-00100/00001/properties'' \<mapsto> run_props ''a'' ''1'',
                    ''/exp/foo/runs-00001-00100/00002/properties'' \<mapsto> [(''coverage'', PNum 1)],
                    ''/exp/foo/runs-00001-00100/00003/properties'' \<mapsto> run_props ''b'' ''1''],
      made_dirs = [], copied = [], info_log = []\<rparr>"

section \<open>Numerals as strings\<close>

lemma index_of_nth: "distinct xs \<Longrightarrow> i < length xs \<Longrightarrow> index_of (xs ! i) xs = Some i"
proof (induction xs arbitrary: i)
  case Nil
  then show ?case by simp
next
  case (Cons x xs)
  show ?case
  proof (cases i)
    case 0
    then show ?thesis by simp
  next
    case (Suc k)
    with Cons.prems have "k < length xs" "xs ! k \<in> set xs" "x \<notin> set xs" "distinct xs" by auto
    with Cons.IH [of k] Suc show ?thesis by auto
  qed
qed

lemma digit_char_code: "d < 10 \<Longrightarrow> of_char (digit_char d) = (48 + d :: nat)"
proof -
  assume "d < 10"
  then have "d \<in> {0,1,2,3,4,5,6,7,8,9::nat}" by auto
  then show ?thesis by (auto simp: digit_char_def)
qed

lemma digit_char_less: "a < b \<Longrightarrow> b < 10 \<Longrightarrow> digit_char a < digit_char b"
  by (simp add: less_char_def digit_char_code)

lemma digit_char_isdigit: "d < 10 \<Longrightarrow> isdigit (digit_char d)"
proof -
  assume "d < 10"
  then have "d \<in> {0,1,2,3,4,5,6,7,8,9::nat}" by auto
  then show ?thesis by (auto simp: digit_char_def isdigit_def)
qed

lemma nat_of_str_snoc: "nat_of_str (s @ [c]) = 10 * nat_of_str s + digit_val c"
  by (simp add: nat_of_str_def)

lemma digit_val_char: "d < 10 \<Longrightarrow> digit_val (digit_char d) = d"
  by (simp add: digit_val_def digit_char_code)

lemma nat_of_str_str_nat: "nat_of_str (str_nat n) = n"
proof (induction n rule: str_nat.induct)
  case (1 n)
  show ?case
  proof (cases "n < 10")
    case True
    then show ?thesis by (simp add: str_nat.simps [of n] nat_of_str_def digit_val_char)
  next
    case False
    with 1 have "nat_of_str (str_nat (n div 10)) = n div 10" by simp
    with False show ?thesis
      by (simp add: str_nat.simps [of n] nat_of_str_snoc digit_val_char)
  qed
qed

lemma str_nat_digits: "list_all isdigit (str_nat n)"
proof (induction n rule: str_nat.induct)
  case (1 n)
  show ?case
  proof (cases "n < 10")
    case True
    then show ?thesis by (simp add: str_nat.simps [of n] digit_char_isdigit)
  next
    case False
    with 1 show ?thesis
      by (simp add: str_nat.simps [of n] digit_char_isdigit)
  qed
qed

lemma nat_of_str_pad2: "nat_of_str (pad2 n) = n"
proof -
  have "nat_of_str (CHR ''0'' # s) = nat_of_str s" for s
    by (simp add: nat_of_str_def digit_val_def)
  then show ?thesis by (simp add: pad2_def nat_of_str_str_nat)
qed

lemma pad2_inj: "pad2 a = pad2 b \<Longrightarrow> a = b"
  by (metis nat_of_str_pad2)

lemma pad2_digits: "list_all isdigit (pad2 n)"
  by (simp add: pad2_def str_nat_digits isdigit_def)

lemma takeWhile_digits: "list_all isdigit ds \<Longrightarrow> takeWhile isdigit (ds @ CHR ''-'' # r) = ds"
  by (induction ds) (simp_all add: isdigit_def)

lemma pad2_dash_inj: "pad2 a @ CHR ''-'' # r = pad2 b @ CHR ''-'' # r' \<Longrightarrow> a = b"
proof -
  assume h: "pad2 a @ CHR ''-'' # r = pad2 b @ CHR ''-'' # r'"
  have "pad2 a = takeWhile isdigit (pad2 a @ CHR ''-'' # r)"
    by (simp add: takeWhile_digits pad2_digits)
  also have "\<dots> = pad2 b" using h by (simp add: takeWhile_digits pad2_digits)
  finally show ?thesis by (rule pad2_inj)
qed

lemma pad2_two: "n < 100 \<Longrightarrow> pad2 n = [digit_char (n div 10), digit_char (n mod 10)]"
proof -
  assume "n < 100"
  then have "n div 10 < 10" by simp
  then show ?thesis
    by (simp add: pad2_def str_nat.simps [of n] str_nat.simps [of "n div 10"] digit_char_def)
qed

lemma append_less_append: "(p @ x < p @ y) = (x < (y :: string))"
  by (induction p) simp_all

lemma div_mod_less:
  assumes "a < (b::nat)"
  shows "a div 10 < b div 10 \<or> (a div 10 = b div 10 \<and> a mod 10 < b mod 10)"
proof (cases "a div 10 = b div 10")
  case True
  have "a div 10 * 10 + a mod 10 = a" "b div 10 * 10 + b mod 10 = b"
    by (rule div_mult_mod_eq)+
  with assms True have "a mod 10 < b mod 10" by (metis nat_add_left_cancel_less)
  with True show ?thesis by simp
next
  case False
  moreover from assms have "a div 10 \<le> b div 10" by (simp add: div_le_mono)
  ultimately show ?thesis by simp
qed

lemma pad2_less: "a < b \<Longrightarrow> b < 100 \<Longrightarrow> pad2 a @ r < pad2 b @ r'"
proof -
  assume ab: "a < b" and b: "b < 100"
  have bd: "b div 10 < 10" "b mod 10 < 10" using b by simp_all
  have pa: "pad2 a = [digit_char (a div 10), digit_char (a mod 10)]"
    using ab b by (simp add: pad2_two)
  have pb: "pad2 b = [digit_char (b div 10), digit_char (b mod 10)]"
    using b by (simp add: pad2_two)
  from div_mod_less [OF ab] show ?thesis
  proof
    assume "a div 10 < b div 10"
    then have "digit_char (a div 10) < digit_char (b div 10)" using bd by (simp add: digit_char_less)
    then show ?thesis by (simp add: pa pb)
  next
    assume h: "a div 10 = b div 10 \<and> a mod 10 < b mod 10"
    then have "digit_char (a mod 10) < digit_char (b mod 10)" using bd by (simp add: digit_char_less)
    with h show ?thesis by (simp add: pa pb)
  qed
qed

section \<open>Properties of the job names\<close>

text \<open>
  C9: for a non-empty experiment name whose first character is a digit the job prefix
  is \<open>j\<close>, the name and \<open>-\<close>; for a non-empty name that starts with anything else it is
  the name and \<open>-\<close>; in both cases the prefix does not begin with a digit.
\<close>

theorem get_job_prefix_escapes_digit:
  "name \<noteq> [] \<Longrightarrow>
     get_job_prefix name =
       Inr ((if isdigit (hd name) then ''j'' else []) @ name @ ''-'') \<and>
     (\<exists>p. get_job_prefix name = Inr p \<and> p \<noteq> [] \<and> \<not> isdigit (hd p))"
  by (auto simp: get_job_prefix_def isdigit_def)

theorem get_job_prefix_escapes_digit_witness:
  "''2014-exp'' \<noteq> [] \<and> get_job_prefix ''2014-exp'' = Inr ''j2014-exp-''"
  using get_job_prefix_escapes_digit [of "''2014-exp''"] by (simp add: isdigit_def)

lemma get_job_name_nth:
  assumes "exp_name e \<noteq> []" and "distinct (exp_steps e)" and "i < length (exp_steps e)"
  shows "get_job_name e (exp_steps e ! i) =
           Inr (job_prefix e @ pad2 (i + 1) @ ''-'' @ step_name (exp_steps e ! i))"
  using assms by (simp add: get_job_name_def get_job_prefix_def index_of_nth job_prefix_def)

text \<open>
  C8, as amended: for an experiment with a non-empty name and steps of distinct names,
  the job name of the step at position \<open>i + 1\<close> is the job prefix, the position written
  with at least two digits, \<open>-\<close> and the step name; the job names are pairwise distinct;
  and when the experiment has fewer than 100 steps they increase strictly, as strings, along
  the chain.
\<close>

theorem job_names_unique_and_ordered:
  assumes "exp_name e \<noteq> []" and "distinct (map step_name (exp_steps e))"
  shows "(\<forall>i<length (exp_steps e).
            get_job_name e (exp_steps e ! i) =
              Inr (job_prefix e @ pad2 (i + 1) @ ''-'' @ step_name (exp_steps e ! i))) \<and>
         distinct (job_names e) \<and>
         (length (exp_steps e) < 100 \<longrightarrow>
            (\<forall>i j. i < j \<and> j < length (exp_steps e) \<longrightarrow>
               (\<exists>a b. get_job_name e (exp_steps e ! i) = Inr a \<and>
                      get_job_name e (exp_steps e ! j) = Inr b \<and> a < b)))"
proof -
  from assms(2) have d: "distinct (exp_steps e)" by (simp add: distinct_map)
  note nth = get_job_name_nth [OF assms(1) d]
  have uniq: "distinct (job_names e)"
    unfolding job_names_def distinct_conv_nth
  proof (intro allI impI)
    fix i j
    assume i: "i < length (map (get_job_name e) (exp_steps e))"
      and j: "j < length (map (get_job_name e) (exp_steps e))" and ij: "i \<noteq> j"
    show "map (get_job_name e) (exp_steps e) ! i \<noteq> map (get_job_name e) (exp_steps e) ! j"
    proof
      assume "map (get_job_name e) (exp_steps e) ! i = map (get_job_name e) (exp_steps e) ! j"
      with i j have "pad2 (i + 1) @ CHR ''-'' # step_name (exp_steps e ! i) =
                     pad2 (j + 1) @ CHR ''-'' # step_name (exp_steps e ! j)"
        by (simp add: nth)
      then have "i + 1 = j + 1" by (rule pad2_dash_inj)
      with ij show False by simp
    qed
  qed
  have ord: "\<exists>a b. get_job_name e (exp_steps e ! i) = Inr a \<and>
                  get_job_name e (exp_steps e ! j) = Inr b \<and> a < b"
    if "length (exp_steps e) < 100" "i < j" "j < length (exp_steps e)" for i j
  proof -
    from that have "i + 1 < j + 1" "j + 1 < 100" "i < length (exp_steps e)" by simp_all
    then show ?thesis using that
      by (simp add: nth append_less_append pad2_less)
  qed
  from nth uniq ord show ?thesis by blast
qed

text \<open>The steps build, run and report of the experiment foo.\<close>

theorem job_names_unique_and_ordered_witness:
  "exp_name foo_exp \<noteq> [] \<and> distinct (map step_name (exp_steps foo_exp)) \<and>
   job_names foo_exp = [Inr ''foo-01-build'', Inr ''foo-02-run'', Inr ''foo-03-report''] \<and>
   distinct (job_names foo_exp) \<and> ''foo-01-build'' < ''foo-02-run'' \<and> ''foo-02-run'' < ''foo-03-report''"
proof -
  have h1: "exp_name foo_exp \<noteq> []" by (simp add: foo_exp_def build_step_def run_step_def report_step_def)
  have h2: "distinct (map step_name (exp_steps foo_exp))" by (simp add: foo_exp_def build_step_def run_step_def report_step_def)
  have names: "job_names foo_exp = [Inr ''foo-01-build'', Inr ''foo-02-run'', Inr ''foo-03-report'']"
    by code_simp
  have "distinct (job_names foo_exp)"
    using job_names_unique_and_ordered [OF h1 h2] by (rule conjunct1 [OF conjunct2])
  with h1 h2 names show ?thesis by simp
qed

text \<open>
  With 100 steps the names do not increase: \<open>'%02d'\<close> writes position 100 with three
  digits, and \<open>foo-100-...\<close> sorts before \<open>foo-99-...\<close>.
\<close>

theorem job_names_order_counterexample:
  "get_job_name long_exp (exp_steps long_exp ! 98) = Inr ''foo-99-s99'' \<and>
   get_job_name long_exp (exp_steps long_exp ! 99) = Inr ''foo-100-s100'' \<and>
   \<not> ''foo-99-s99'' < ''foo-100-s100''"
  by code_simp

section \<open>The number of tasks\<close>

lemma get_num_runs_ok:
  "runs_per_task env \<noteq> 0 \<Longrightarrow> \<not> exceeds_max_tasks env (task_count env e) \<Longrightarrow>
   get_num_runs env e = Inr (task_count env e)"
  by (auto simp: get_num_runs_def task_count_def exceeds_max_tasks_def Let_def
      split: max_tasks.splits)

text \<open>
  C7: an ancillary step has one task; a run step has \<open>ceil(run_count / runs_per_task)\<close>
  tasks, whenever \<open>_get_num_runs\<close> returns, that is when \<open>runs_per_task\<close> is not 0 and
  is a number that \<open>float\<close> converts (of magnitude below \<open>2 ^ 1024 - 2 ^ 970\<close>), there
  are fewer than \<open>2 ^ 53\<close> runs, and the count does not exceed \<open>MAX_TASKS\<close>. With 2001
  runs that is 2001 tasks for one run per task and 21 tasks for 100 runs per task.
\<close>

theorem num_tasks_is_ceiling:
  "(funcname st \<noteq> ''run'' \<longrightarrow> get_num_tasks env e st = Inr 1) \<and>
   (funcname st = ''run'' \<and> runs_per_task env \<noteq> 0 \<and>
    \<bar>runs_per_task env\<bar> < 2 ^ 1024 - 2 ^ 970 \<and> length (exp_runs e) < 2 ^ 53 \<and>
    \<not> exceeds_max_tasks env (task_count env e) \<longrightarrow>
      get_num_tasks env e st =
        Inr \<lceil>real (length (exp_runs e)) / real_of_int (runs_per_task env)\<rceil>) \<and>
   (funcname st = ''run'' \<and> length (exp_runs e) = 2001 \<and> MAX_TASKS env = AtMost 75000 \<longrightarrow>
      (runs_per_task env = 1 \<longrightarrow> get_num_tasks env e st = Inr 2001) \<and>
      (runs_per_task env = 100 \<longrightarrow> get_num_tasks env e st = Inr 21))"
proof (intro conjI impI)
  assume "funcname st \<noteq> ''run''"
  then show "get_num_tasks env e st = Inr 1" by (simp add: get_num_tasks_def)
next
  assume "funcname st = ''run'' \<and> runs_per_task env \<noteq> 0 \<and>
          \<bar>runs_per_task env\<bar> < 2 ^ 1024 - 2 ^ 970 \<and> length (exp_runs e) < 2 ^ 53 \<and>
          \<not> exceeds_max_tasks env (task_count env e)"
  then show "get_num_tasks env e st =
               Inr \<lceil>real (length (exp_runs e)) / real_of_int (runs_per_task env)\<rceil>"
    by (simp add: get_num_tasks_def get_num_runs_ok) (simp add: task_count_def)
next
  assume "funcname st = ''run'' \<and> length (exp_runs e) = 2001 \<and> MAX_TASKS env = AtMost 75000"
    and "runs_per_task env = 1"
  then show "get_num_tasks env e st = Inr 2001"
    by (simp add: get_num_tasks_def get_num_runs_def)
next
  assume "funcname st = ''run'' \<and> length (exp_runs e) = 2001 \<and> MAX_TASKS env = AtMost 75000"
    and "runs_per_task env = 100"
  then show "get_num_tasks env e st = Inr 21"
    by (simp add: get_num_tasks_def get_num_runs_def)
qed

theorem num_tasks_is_ceiling_witness:
  "funcname run_step = ''run'' \<and> runs_per_task (gki_env 100) \<noteq> 0 \<and>
   \<bar>runs_per_task (gki_env 100)\<bar> < 2 ^ 1024 - 2 ^ 970 \<and>
   length (exp_runs big_exp) < 2 ^ 53 \<and>
   \<not> exceeds_max_tasks (gki_env 100) (task_count (gki_env 100) big_exp) \<and>
   length (exp_runs big_exp) = 2001 \<and>
   get_num_tasks (gki_env 100) big_exp run_step = Inr 21 \<and>
   get_num_tasks (gki_env 100) big_exp report_step = Inr 1"
  using num_tasks_is_ceiling [of run_step "gki_env 100" big_exp]
    num_tasks_is_ceiling [of report_step "gki_env 100" big_exp]
  by (simp add: run_step_def report_step_def gki_env_def big_exp_def task_count_def
      exceeds_max_tasks_def)

section \<open>The run ids of a task array\<close>

lemma shuffle_loop_mset: "n < length xs \<Longrightarrow> mset (shuffle_loop n rnd k xs) = mset xs"
proof (induction n arbitrary: k xs)
  case 0
  then show ?case by simp
next
  case (Suc n)
  let ?j = "rnd k mod (Suc n + 1)"
  let ?ys = "xs[Suc n := xs ! ?j, ?j := xs ! Suc n]"
  have "?j < Suc n + 1" by simp
  with Suc.prems have j: "?j < length xs" by linarith
  have "mset ?ys = mset xs" using Suc.prems j by (simp add: mset_swap)
  moreover have "n < length ?ys" using Suc.prems by simp
  ultimately show ?case using Suc.IH [of ?ys "k + 1"] by (simp add: Let_def)
qed

lemma shuffle_mset: "mset (shuffle rnd k xs) = mset xs"
  by (cases xs) (simp_all add: shuffle_def shuffle_loop_mset)

lemma split_words_append:
  "CHR '' '' \<notin> set w \<Longrightarrow> split_words acc (w @ s) = split_words (acc @ w) s"
  by (induction w arbitrary: acc) auto

lemma split_words_join:
  "list_all (\<lambda>w. w \<noteq> [] \<and> CHR '' '' \<notin> set w) xs \<Longrightarrow> split_words [] (join '' '' xs) = xs"
proof (induction "'' ''" xs rule: join.induct)
  case 1
  then show ?case by simp
next
  case (2 x)
  then show ?case using split_words_append [of x "[]" "[]"] by simp
next
  case (3 x y ys)
  then have "split_words [] (join '' '' (y # ys)) = y # ys" by simp
  moreover have "split_words [] (x @ '' '' @ join '' '' (y # ys)) =
                 split_words x ('' '' @ join '' '' (y # ys))"
    using 3 split_words_append [of x "[]"] by simp
  ultimately show ?case using 3 by simp
qed

lemma str_nat_not_empty: "str_nat n \<noteq> []"
  by (subst str_nat.simps) simp

lemma str_nat_no_space: "CHR '' '' \<notin> set (str_nat n)"
proof
  assume "CHR '' '' \<in> set (str_nat n)"
  with str_nat_digits [of n] have "isdigit CHR '' ''" by (simp add: list_all_iff)
  then show False by (simp add: isdigit_def)
qed

lemma run_id_list_words:
  "list_all (\<lambda>w. w \<noteq> [] \<and> CHR '' '' \<notin> set w) (run_id_list n)"
  by (simp add: run_id_list_def list_all_iff str_int_def str_nat_not_empty str_nat_no_space)

lemma shuffle_words:
  "list_all P xs \<Longrightarrow> list_all P (shuffle rnd k xs)"
  using shuffle_mset [of rnd k xs] by (metis list_all_iff set_mset_mset)

lemma embedded_shuffled:
  "mset (embedded_run_ids \<lparr>bp_num_tasks = n, bp_run_ids = join '' '' (shuffle rnd k (run_id_list n))\<rparr>)
     = mset (run_id_list n)"
  by (simp add: embedded_run_ids_def split_words_join shuffle_words run_id_list_words shuffle_mset)

lemma get_num_runs_randomize:
  "get_num_runs (env\<lparr>randomize_task_order := b\<rparr>) e = get_num_runs env e"
  by (simp add: get_num_runs_def)

text \<open>
  C3, as amended: for a fixed number of runs, with \<open>randomize_task_order\<close> the body
  embeds, in the order of the shuffle, exactly the run ids 1 to \<open>num_tasks\<close>, each once
  (the same multiset for every outcome of the shuffle); without it the body embeds no run
  id, the value of \<open>run_ids\<close> is the empty string. The number of tasks is the same in
  both cases.
\<close>

theorem randomization_keeps_run_ids:
  assumes "get_num_runs env e = Inr n"
  shows "(\<exists>bp k'. get_main_job_body_params p (env\<lparr>randomize_task_order := True\<rparr>) e k = Inr (bp, k') \<and>
            bp_num_tasks bp = n \<and> mset (embedded_run_ids bp) = mset (run_id_list n)) \<and>
         get_main_job_body_params p (env\<lparr>randomize_task_order := False\<rparr>) e k =
           Inr (\<lparr>bp_num_tasks = n, bp_run_ids = []\<rparr>, k) \<and>
         embedded_run_ids \<lparr>bp_num_tasks = n, bp_run_ids = []\<rparr> = []"
  using assms
  by (simp add: get_main_job_body_params_def get_num_runs_randomize Let_def embedded_shuffled)
     (simp add: embedded_run_ids_def)

lemma foo_num_runs: "get_num_runs (gki_env 1) foo_exp = Inr 3"
  by (simp add: get_num_runs_def gki_env_def foo_exp_def)

theorem randomization_keeps_run_ids_witness:
  "get_num_runs (gki_env 1) foo_exp = Inr 3 \<and>
   get_main_job_body_params proc0 ((gki_env 1)\<lparr>randomize_task_order := False\<rparr>) foo_exp 0 =
     Inr (\<lparr>bp_num_tasks = 3, bp_run_ids = []\<rparr>, 0)"
  using randomization_keeps_run_ids [OF foo_num_runs, of proc0 0] foo_num_runs by simp

lemma shuffled_ids: "shuffle (\<lambda>k. 0) 0 (run_id_list 3) = [''2'', ''3'', ''1'']"
  by code_simp

lemma split_ids: "split_words [] ''2 3 1'' = [''2'', ''3'', ''1'']"
  by code_simp

text \<open>
  Three runs: with randomization the body embeds the ids 2, 3 and 1, without it none, so
  the two multisets differ.
\<close>

theorem run_ids_differ_counterexample:
  "get_main_job_body_params proc0 ((gki_env 1)\<lparr>randomize_task_order := True\<rparr>) foo_exp 0 =
     Inr (\<lparr>bp_num_tasks = 3, bp_run_ids = ''2 3 1''\<rparr>, 2) \<and>
   get_main_job_body_params proc0 ((gki_env 1)\<lparr>randomize_task_order := False\<rparr>) foo_exp 0 =
     Inr (\<lparr>bp_num_tasks = 3, bp_run_ids = []\<rparr>, 0) \<and>
   mset (embedded_run_ids \<lparr>bp_num_tasks = 3, bp_run_ids = ''2 3 1''\<rparr>) \<noteq>
   mset (embedded_run_ids \<lparr>bp_num_tasks = 3, bp_run_ids = []\<rparr>)"
  by (simp add: get_main_job_body_params_def get_num_runs_randomize foo_num_runs proc0_def
      shuffled_ids embedded_run_ids_def split_ids)

section \<open>Submission of the job chain\<close>

lemma prepare_step_keeps:
  "prepare_step lab st s = (s1, d) \<Longrightarrow>
     files s1 = files s \<and> commands s1 = commands s \<and> prompts s1 = prompts s"
  by (auto simp: prepare_step_def makedirs_def Let_def split: if_splits)

lemma get_num_runs_exceeds:
  "runs_per_task env \<noteq> 0 \<Longrightarrow> MAX_TASKS env = AtMost m \<Longrightarrow> m < task_count env e \<Longrightarrow>
   get_num_runs env e = Inl (Critical (capacity_message (task_count env e) m))"
  by (simp add: get_num_runs_def task_count_def logging_critical_def Let_def)

lemma get_job_fails_with_num_runs:
  "funcname st = ''run'' \<Longrightarrow> get_job_name (exp s) st = Inr nm \<Longrightarrow>
   get_num_runs env (exp s) = Inl err \<Longrightarrow> get_job lab p env st is_last s = (s, Inl err)"
  by (simp add: get_job_def get_job_header_def get_job_params_def get_num_tasks_def)

text \<open>
  C1, as amended: when the number of tasks of a run step exceeds \<open>MAX_TASKS\<close>, the loop
  of \<open>run_steps\<close> ends at this step with the critical record that names the requested
  and the allowed number of tasks. No submission command is invoked for the step or for a
  later one and no job text and no marker is written; the job file of the step has been
  opened before the check, so it exists and is empty.
\<close>

theorem capacity_error_before_submission:
  assumes run: "funcname st = ''run''"
    and prep: "prepare_step lab st s = (s1, job_dir)"
    and guard: "path_exists s1 (path_join job_dir [''submitted'']) \<longrightarrow>
                user_confirms p (resubmission_question (path_join job_dir [''submitted'']))"
    and name: "get_job_name (exp s1) st = Inr job_name"
    and rpt: "runs_per_task env \<noteq> 0"
    and limit: "MAX_TASKS env = AtMost m"
    and over: "m < task_count env (exp s1)"
  shows "\<exists>s'. run_steps_loop lab p env num_steps number prev (st # rest) s =
           (s', Some (Critical (''You are trying to submit a job with '' @
                                str_int (task_count env (exp s1)) @
                                '' tasks, but only '' @ str_int m @ '' are allowed.''))) \<and>
         commands s' = commands s \<and>
         files s' = (files s)(path_join job_dir [job_name] \<mapsto> [])"
proof -
  note keeps = prepare_step_keeps [OF prep]
  let ?q = "resubmission_question (path_join job_dir [''submitted''])"
  let ?file = "path_join job_dir [job_name]"
  have fail: "get_num_runs env (exp s1) = Inl (Critical (capacity_message (task_count env (exp s1)) m))"
    using rpt limit over by (rule get_num_runs_exceeds)
  show ?thesis
  proof (cases "path_exists s1 (path_join job_dir [''submitted''])")
    case True
    let ?s2 = "s1\<lparr>prompts := prompts s1 @ [?q]\<rparr>"
    let ?s3 = "?s2\<lparr>files := (files ?s2)(?file \<mapsto> [])\<rparr>"
    have "get_job lab p env st (number = num_steps) ?s3 =
            (?s3, Inl (Critical (capacity_message (task_count env (exp s1)) m)))"
      using run name fail by (intro get_job_fails_with_num_runs) simp_all
    with True guard run prep name keeps show ?thesis
      by (simp add: run_steps_body_def confirm_or_abort_def Let_def capacity_message_def)
  next
    case False
    let ?s3 = "s1\<lparr>files := (files s1)(?file \<mapsto> [])\<rparr>"
    have "get_job lab p env st (number = num_steps) ?s3 =
            (?s3, Inl (Critical (capacity_message (task_count env (exp s1)) m)))"
      using run name fail by (intro get_job_fails_with_num_runs) simp_all
    with False run prep name keeps show ?thesis
      by (simp add: run_steps_body_def Let_def capacity_message_def)
  qed
qed

lemma small_num_runs:
  "get_num_runs small_env foo_exp =
     Inl (Critical ''You are trying to submit a job with 3 tasks, but only 2 are allowed.'')"
  by (simp add: get_num_runs_def small_env_def gki_env_def foo_exp_def logging_critical_def
      capacity_message_def str_int_def str_nat.simps digit_char_def)

theorem capacity_error_before_submission_witness:
  "funcname run_step = ''run'' \<and> MAX_TASKS small_env = AtMost 2 \<and>
   2 < task_count small_env (exp state0) \<and>
   (\<exists>s'. run_steps_loop lab0 proc0 small_env 1 1 None [run_step] state0 =
           (s', Some (Critical (''You are trying to submit a job with '' @
                                str_int (task_count small_env (exp state0)) @
                                '' tasks, but only '' @ str_int 2 @ '' are allowed.''))) \<and>
         commands s' = commands state0 \<and>
         files s' = (files state0)(path_join ''/exp/foo'' [''foo-02-run''] \<mapsto> []))"
proof -
  have h1: "funcname run_step = ''run''" by (simp add: run_step_def)
  have h2: "prepare_step lab0 run_step state0 = (state0, ''/exp/foo'')"
    by (simp add: prepare_step_def run_step_def state0_def foo_exp_def)
  have h3: "path_exists state0 (path_join ''/exp/foo'' [''submitted'']) \<longrightarrow>
            user_confirms proc0 (resubmission_question (path_join ''/exp/foo'' [''submitted'']))"
    by (simp add: path_exists_def state0_def)
  have h4: "get_job_name (exp state0) run_step = Inr ''foo-02-run''"
    by code_simp
  have h5: "runs_per_task small_env \<noteq> 0" by (simp add: small_env_def gki_env_def)
  have h6: "MAX_TASKS small_env = AtMost 2" by (simp add: small_env_def)
  have h7: "2 < task_count small_env (exp state0)"
    by (simp add: task_count_def small_env_def gki_env_def state0_def foo_exp_def)
  from capacity_error_before_submission [OF h1 h2 h3 h4 h5 h6 h7, of 1 1 None "[]"] h1 h6 h7
  show ?thesis by simp
qed

text \<open>
  Three runs where two tasks are allowed: the job file of the run step did not exist
  before and exists, empty, after the capacity error.
\<close>

theorem job_file_written_counterexample:
  "files state0 ''/exp/foo/foo-02-run'' = None \<and>
   snd (run_steps lab0 proc0 small_env [run_step] state0) =
     Some (Critical ''You are trying to submit a job with 3 tasks, but only 2 are allowed.'') \<and>
   files (fst (run_steps lab0 proc0 small_env [run_step] state0)) ''/exp/foo/foo-02-run'' = Some []"
proof -
  have name: "get_job_name foo_exp run_step = Inr ''foo-02-run''" by code_simp
  have path: "path_join ''/exp/foo'' [''foo-02-run''] = ''/exp/foo/foo-02-run''" by code_simp
  have sub: "path_join ''/exp/foo'' [''submitted''] = ''/exp/foo/submitted''" by code_simp
  have prep: "prepare_step lab0 run_step (makedirs ''/exp/foo'' state0) =
                (makedirs ''/exp/foo'' state0, ''/exp/foo'')"
    by (simp add: prepare_step_def run_step_def state0_def foo_exp_def makedirs_def)
  have ex: "\<not> path_exists (makedirs ''/exp/foo'' state0) ''/exp/foo/submitted''"
    by (simp add: path_exists_def state0_def makedirs_def)
  have e: "exp (makedirs ''/exp/foo'' state0) = foo_exp" "exp_path foo_exp = ''/exp/foo''"
    by (simp_all add: makedirs_def state0_def foo_exp_def)
  have f: "funcname run_step = ''run''" by (simp add: run_step_def)
  show ?thesis
    by (simp add: run_steps_def run_steps_body_def state0_def [THEN arg_cong, of exp] e prep sub ex
        name path f get_job_def get_job_header_def get_job_params_def get_num_tasks_def
        small_num_runs Let_def)
       (simp add: state0_def makedirs_def)
qed

text \<open>
  C4, as amended: when the marker file of a run step exists, the user is asked, and when
  the user declines, \<open>run_steps\<close> ends at this step: no job file is written and no
  submission command is invoked for this step or for any later step, and the files, the
  marker among them, and the commands already run are as before.
\<close>

theorem declined_resubmission_aborts:
  assumes "funcname st = ''run''"
    and "prepare_step lab st s = (s1, job_dir)"
    and "path_exists s1 (path_join job_dir [''submitted''])"
    and "\<not> user_confirms p (resubmission_question (path_join job_dir [''submitted'']))"
  shows "run_steps_loop lab p env num_steps number prev (st # rest) s =
           (s1\<lparr>prompts := prompts s1 @
                   [resubmission_question (path_join job_dir [''submitted''])]\<rparr>, Some Aborted) \<and>
         files s1 = files s \<and> commands s1 = commands s"
  using assms prepare_step_keeps [OF assms(2)]
  by (simp add: run_steps_body_def confirm_or_abort_def Let_def)

lemma submitted_path: "path_join ''/exp/foo'' [''submitted''] = ''/exp/foo/submitted''"
  by code_simp

theorem declined_resubmission_aborts_witness:
  "funcname run_step = ''run'' \<and>
   path_exists submitted_state (path_join ''/exp/foo'' [''submitted'']) \<and>
   \<not> user_confirms proc0 (resubmission_question (path_join ''/exp/foo'' [''submitted''])) \<and>
   run_steps_loop lab0 proc0 (gki_env 1) 2 1 None [run_step, report_step] submitted_state =
     (submitted_state\<lparr>prompts := prompts submitted_state @
         [resubmission_question (path_join ''/exp/foo'' [''submitted''])]\<rparr>, Some Aborted)"
proof -
  have h1: "funcname run_step = ''run''" by (simp add: run_step_def)
  have h2: "prepare_step lab0 run_step submitted_state = (submitted_state, ''/exp/foo'')"
    by (simp add: prepare_step_def run_step_def submitted_state_def state0_def foo_exp_def)
  have h3: "path_exists submitted_state (path_join ''/exp/foo'' [''submitted''])"
    by (simp add: path_exists_def submitted_state_def submitted_path)
  have h4: "\<not> user_confirms proc0 (resubmission_question (path_join ''/exp/foo'' [''submitted'']))"
    by (simp add: proc0_def)
  from declined_resubmission_aborts [OF h1 h2 h3 h4, of "gki_env 1" 2 1 None "[report_step]"]
    h1 h3 h4
  show ?thesis by simp
qed

text \<open>
  The steps run and report with an existing marker and a user who declines: the report
  step, which follows the declined step, is never submitted.
\<close>

theorem pipeline_stops_counterexample:
  "snd (run_steps lab0 proc0 (gki_env 1) [run_step, report_step] submitted_state) = Some Aborted \<and>
   commands (fst (run_steps lab0 proc0 (gki_env 1) [run_step, report_step] submitted_state)) = [] \<and>
   files (fst (run_steps lab0 proc0 (gki_env 1) [run_step, report_step] submitted_state))
     ''/exp/foo/foo-03-report'' = None"
proof -
  let ?s = "makedirs ''/exp/foo'' submitted_state"
  have prep: "prepare_step lab0 run_step ?s = (?s, ''/exp/foo'')"
    by (simp add: prepare_step_def run_step_def submitted_state_def state0_def foo_exp_def
        makedirs_def)
  have ex: "path_exists ?s ''/exp/foo/submitted''"
    by (simp add: path_exists_def submitted_state_def makedirs_def)
  have e: "exp_path (exp submitted_state) = ''/exp/foo''"
    by (simp add: submitted_state_def state0_def foo_exp_def)
  have f: "funcname run_step = ''run''" by (simp add: run_step_def)
  have u: "\<not> user_confirms proc0 q" for q by (simp add: proc0_def)
  show ?thesis
    by (simp add: run_steps_def run_steps_body_def e prep submitted_path ex f u
        confirm_or_abort_def Let_def)
       (simp add: submitted_state_def state0_def makedirs_def)
qed

section \<open>The fetcher\<close>

subsection \<open>The loop reads property files and writes none\<close>

lemma fetch_dir_keeps:
  "fetch_dir run_dir eval_dir copy_all w = (w', r) \<Longrightarrow> prop_files w' = prop_files w"
  by (auto simp: fetch_dir_def Let_def fast_updatetree_def make_dirs_def
      split: sum.splits if_splits)

lemma fetch_loop_keeps:
  "fetch_loop eval_dir copy_all t i ds cb w = (w', r) \<Longrightarrow> prop_files w' = prop_files w"
proof (induction ds arbitrary: i cb w)
  case Nil
  then show ?case by simp
next
  case (Cons d ds)
  let ?w1 = "logging_info (progress_message i t) w"
  obtain w2 r2 where fd: "fetch_dir d eval_dir copy_all ?w1 = (w2, r2)" by force
  then have k: "prop_files w2 = prop_files w"
    using fetch_dir_keeps [OF fd] by (simp add: logging_info_def)
  show ?case
  proof (cases r2)
    case (Inl e)
    with Cons.prems fd k show ?thesis by (simp add: Let_def)
  next
    case (Inr p)
    then obtain run_id ps where p: "r2 = Inr (run_id, ps)" by (cases p) simp
    show ?thesis
    proof (cases cb)
      case None
      with Cons.prems fd p have "fetch_loop eval_dir copy_all t (Suc i) ds None w2 = (w', r)"
        by (simp add: Let_def)
      from Cons.IH [OF this] k show ?thesis by simp
    next
      case (Some c)
      show ?thesis
      proof (cases "join_run_id run_id")
        case (Inl e)
        with Cons.prems fd p Some k show ?thesis by (simp add: Let_def)
      next
        case (Inr key)
        with Cons.prems fd p Some
        have "fetch_loop eval_dir copy_all t (Suc i) ds
                (Some (props_set key (PDict (items ps)) c)) w2 = (w', r)"
          by (simp add: Let_def)
        from Cons.IH [OF this] k show ?thesis by simp
      qed
    qed
  qed
qed

lemma read_id_lacks:
  "lacks_id w d \<Longrightarrow> prop_files w1 = prop_files w \<Longrightarrow>
   read_id (load_properties (path_join d [''properties'']) w1) =
     Inl (Critical (id_message (path_join d [''properties''])))"
  by (auto simp: lacks_id_def prop_file_of_def read_id_def load_properties_def props_get_def
      logging_critical_def split: option.splits)

lemma fetch_loop_lacks:
  "lacks_id w d \<Longrightarrow>
   \<exists>w'. fetch_loop eval_dir copy_all t i (d # rest) cb w =
          (w', Inl (Critical (id_message (path_join d [''properties'']))))"
  by (simp add: Let_def fetch_dir_def read_id_lacks logging_info_def)

subsection \<open>The result of a call\<close>

lemma strings_any_error: "strings e1 vs = Inr ss \<Longrightarrow> strings e2 vs = Inr ss"
  by (induction e1 vs arbitrary: ss rule: strings.induct) (auto split: sum.splits)

lemma join_run_id_after_dest:
  "join_dest_dir eval_dir v = Inr x \<Longrightarrow> \<exists>k. join_run_id v = Inr k"
  by (auto simp: join_dest_dir_def join_run_id_def split: sum.splits
      dest: strings_any_error [where ?e2.0 = TypeError])

lemma fetch_dir_result:
  "snd (fetch_dir d eval_dir copy_all w) =
     (case read_id (load_properties (path_join d [''properties'']) w) of
        Inl e \<Rightarrow> Inl e
      | Inr v \<Rightarrow>
          (case join_dest_dir eval_dir v of
             Inl e \<Rightarrow> Inl e
           | Inr _ \<Rightarrow> Inr (v, load_properties (path_join d [''properties'']) w)))"
  by (simp add: fetch_dir_def Let_def split: sum.splits)

lemma set_all_Cons: "set_all (kv # kvs) cb = set_all kvs (props_set (fst kv) (snd kv) cb)"
  by (simp add: set_all_def)

lemma fetch_loop_result:
  "prop_files w = P \<Longrightarrow>
   snd (fetch_loop eval_dir copy_all t i ds cbo w) =
     (case collect P eval_dir ds of
        Inl e \<Rightarrow> Inl e
      | Inr kvs \<Rightarrow> Inr (map_option (set_all kvs) cbo))"
proof (induction ds arbitrary: i cbo w)
  case Nil
  then show ?case by (cases cbo) (simp_all add: set_all_def)
next
  case (Cons d ds)
  let ?f = "path_join d [''properties'']"
  let ?w1 = "logging_info (progress_message i t) w"
  let ?kvs = "case P ?f of None \<Rightarrow> [] | Some kvs \<Rightarrow> kvs"
  have lp: "load_properties ?f ?w1 = \<lparr>filename = ?f, items = ?kvs\<rparr>"
    using Cons.prems by (simp add: load_properties_def logging_info_def)
  obtain w2 r2 where fd: "fetch_dir d eval_dir copy_all ?w1 = (w2, r2)" by force
  have k: "prop_files w2 = P"
    using fetch_dir_keeps [OF fd] Cons.prems by (simp add: logging_info_def)
  have r2: "r2 = (case read_id \<lparr>filename = ?f, items = ?kvs\<rparr> of
                    Inl e \<Rightarrow> Inl e
                  | Inr v \<Rightarrow>
                      (case join_dest_dir eval_dir v of
                         Inl e \<Rightarrow> Inl e
                       | Inr _ \<Rightarrow> Inr (v, \<lparr>filename = ?f, items = ?kvs\<rparr>)))"
    using fetch_dir_result [of d eval_dir copy_all ?w1] unfolding fd lp snd_conv .
  show ?case
  proof (cases "read_id \<lparr>filename = ?f, items = ?kvs\<rparr>")
    case (Inl e)
    with r2 fd show ?thesis by (simp add: Let_def dir_entry_def)
  next
    case (Inr v)
    show ?thesis
    proof (cases "join_dest_dir eval_dir v")
      case (Inl e)
      with Inr r2 fd show ?thesis by (simp add: Let_def dir_entry_def)
    next
      case dest: (Inr x)
      then obtain key where key: "join_run_id v = Inr key"
        using join_run_id_after_dest by blast
      have de: "dir_entry P eval_dir d = Inr (key, PDict ?kvs)"
        using Inr dest key by (simp add: dir_entry_def Let_def)
      have r2': "r2 = Inr (v, \<lparr>filename = ?f, items = ?kvs\<rparr>)" using r2 Inr dest by simp
      show ?thesis
      proof (cases cbo)
        case None
        with fd r2' de Cons.IH [OF k, of "Suc i" None] show ?thesis
          by (simp add: Let_def split: sum.splits)
      next
        case (Some c)
        with fd r2' de key
          Cons.IH [OF k, of "Suc i" "Some (props_set key (PDict ?kvs) c)"]
        show ?thesis
          by (simp add: Let_def set_all_Cons split: sum.splits)
      qed
    qed
  qed
qed

lemma set_all_filename: "filename (set_all kvs cb) = filename cb"
  by (induction kvs arbitrary: cb) (simp_all add: set_all_def props_set_def)

lemma items_set_all:
  "items (set_all kvs cb) = foldl (\<lambda>xs kv. set_item (fst kv) (snd kv) xs) (items cb) kvs"
  by (induction kvs arbitrary: cb) (simp_all add: set_all_def props_set_def)

lemma load_filename: "filename (load_properties f w) = f"
  by (simp add: load_properties_def)

lemma fetcher_call_result:
  assumes "\<not> endswith exp_dir ''/''"
  shows "snd (fetcher_call glob exp_dir eda copy_all wcp w) =
           (case collect (prop_files w) (effective_eval_dir exp_dir eda) (run_dirs_of glob exp_dir) of
              Inl e \<Rightarrow> Some e | Inr kvs \<Rightarrow> None)"
    and "prop_files (fst (fetcher_call glob exp_dir eda copy_all wcp w)) =
           (case collect (prop_files w) (effective_eval_dir exp_dir eda) (run_dirs_of glob exp_dir) of
              Inl e \<Rightarrow> prop_files w
            | Inr kvs \<Rightarrow>
                if wcp
                then (prop_files w)(path_join (effective_eval_dir exp_dir eda) [''properties''] \<mapsto>
                       items (set_all kvs
                         (load_properties
                            (path_join (effective_eval_dir exp_dir eda) [''properties'']) w)))
                else prop_files w)"
proof -
  let ?ed = "effective_eval_dir exp_dir eda"
  let ?cf = "path_join ?ed [''properties'']"
  let ?ds = "run_dirs_of glob exp_dir"
  let ?w1 = "logging_info (fetching_message exp_dir ?ed) w"
  let ?cb = "if wcp then Some (load_properties ?cf ?w1) else None"
  have p1: "prop_files ?w1 = prop_files w" by (simp add: logging_info_def)
  have l1: "load_properties ?cf ?w1 = load_properties ?cf w"
    by (simp add: load_properties_def logging_info_def)
  obtain w2 r where loop: "fetch_loop ?ed copy_all (length ?ds) 1 ?ds ?cb ?w1 = (w2, r)" by force
  have p2: "prop_files w2 = prop_files w" using fetch_loop_keeps [OF loop] p1 by simp
  have r: "r = (case collect (prop_files w) ?ed ?ds of
                  Inl e \<Rightarrow> Inl e | Inr kvs \<Rightarrow> Inr (map_option (set_all kvs) ?cb))"
    using fetch_loop_result [OF p1, of ?ed copy_all "length ?ds" 1 ?ds ?cb] unfolding loop snd_conv .
  have call: "fetcher_call glob exp_dir eda copy_all wcp w =
                (case r of
                   Inl err \<Rightarrow> (w2, Some err)
                 | Inr c \<Rightarrow>
                     (case c of
                        None \<Rightarrow> (make_dirs ?ed w2, None)
                      | Some cp \<Rightarrow> (props_write cp (make_dirs ?ed w2), None)))"
    using assms loop by (simp add: fetcher_call_def Let_def)
  show "snd (fetcher_call glob exp_dir eda copy_all wcp w) =
           (case collect (prop_files w) ?ed ?ds of Inl e \<Rightarrow> Some e | Inr kvs \<Rightarrow> None)"
    unfolding call r by (simp split: sum.splits option.splits)
  show "prop_files (fst (fetcher_call glob exp_dir eda copy_all wcp w)) =
           (case collect (prop_files w) ?ed ?ds of
              Inl e \<Rightarrow> prop_files w
            | Inr kvs \<Rightarrow>
                if wcp
                then (prop_files w)(?cf \<mapsto> items (set_all kvs (load_properties ?cf w)))
                else prop_files w)"
    unfolding call r
    by (simp add: p2 p1 l1 props_write_def make_dirs_def set_all_filename load_filename
        split: sum.splits)
qed

lemma dir_entry_cong:
  "P (path_join d [''properties'']) = Q (path_join d [''properties'']) \<Longrightarrow>
   dir_entry P eval_dir d = dir_entry Q eval_dir d"
  by (simp add: dir_entry_def)

lemma collect_cong:
  "list_all (\<lambda>d. P (path_join d [''properties'']) = Q (path_join d [''properties''])) ds \<Longrightarrow>
   collect P eval_dir ds = collect Q eval_dir ds"
  by (induction ds) (simp_all add: dir_entry_cong [of P _ Q] split: sum.splits)

subsection \<open>Setting keys twice\<close>

lemma set_items_snoc: "set_items (kvs @ [kv]) xs = set_item (fst kv) (snd kv) (set_items kvs xs)"
  by (simp add: set_items_def)

lemma set_item_keys: "fst ` set (set_item k v xs) = insert k (fst ` set xs)"
  by (auto simp: set_item_def image_iff split: if_splits) force+

lemma set_items_keys: "fst ` set (set_items kvs xs) = fst ` set xs \<union> fst ` set kvs"
  by (induction kvs rule: rev_induct) (auto simp: set_items_snoc set_item_keys set_items_def)

lemma set_item_entry:
  "(a, b) \<in> set (set_item k v t) \<Longrightarrow> (a = k \<and> b = v) \<or> (a \<noteq> k \<and> (a, b) \<in> set t)"
  by (auto simp: set_item_def image_iff split: if_splits)

lemma set_items_last:
  "(a, b) \<in> set (set_items kvs xs) \<Longrightarrow> map_of (rev kvs) a = Some v \<Longrightarrow> b = v"
proof (induction kvs arbitrary: b v rule: rev_induct)
  case Nil
  then show ?case by simp
next
  case (snoc kv kvs)
  from snoc.prems(1) have "(a = fst kv \<and> b = snd kv) \<or> (a \<noteq> fst kv \<and> (a, b) \<in> set (set_items kvs xs))"
    by (simp add: set_items_snoc set_item_entry)
  then show ?case
  proof
    assume "a = fst kv \<and> b = snd kv"
    with snoc.prems(2) show ?thesis by (cases kv) simp
  next
    assume h: "a \<noteq> fst kv \<and> (a, b) \<in> set (set_items kvs xs)"
    with snoc.prems(2) have "map_of (rev kvs) a = Some v" by (cases kv) simp
    with h snoc.IH show ?thesis by blast
  qed
qed

lemma set_item_present:
  "k \<in> fst ` set t \<Longrightarrow> set_item k v t = map (\<lambda>(a, b). if a = k then (a, v) else (a, b)) t"
  by (simp add: set_item_def)

lemma set_items_present:
  "fst ` set kvs \<subseteq> fst ` set t \<Longrightarrow>
   set_items kvs t =
     map (\<lambda>(a, b). (a, case map_of (rev kvs) a of Some v \<Rightarrow> v | None \<Rightarrow> b)) t"
proof (induction kvs rule: rev_induct)
  case Nil
  then show ?case by (simp add: set_items_def)
next
  case (snoc kv kvs)
  obtain k v where kv: "kv = (k, v)" by (cases kv)
  let ?g = "\<lambda>(a, b). (a, case map_of (rev kvs) a of Some v \<Rightarrow> v | None \<Rightarrow> b)"
  from snoc have ih: "set_items kvs t = map ?g t" by simp
  have "fst ` set (map ?g t) = fst ` set t" by force
  moreover from snoc.prems kv have "k \<in> fst ` set t" by simp
  ultimately have "k \<in> fst ` set (map ?g t)" by simp
  then have "set_item k v (map ?g t) =
               map (\<lambda>(a, b). if a = k then (a, v) else (a, b)) (map ?g t)"
    by (rule set_item_present)
  then show ?case by (simp add: set_items_snoc kv ih split_def)
qed

lemma set_items_idem: "set_items kvs (set_items kvs xs) = set_items kvs xs"
proof -
  let ?t = "set_items kvs xs"
  let ?g = "\<lambda>(a, b). (a, case map_of (rev kvs) a of Some v \<Rightarrow> v | None \<Rightarrow> b)"
  have "fst ` set kvs \<subseteq> fst ` set ?t" by (simp add: set_items_keys)
  then have "set_items kvs ?t = map ?g ?t" by (rule set_items_present)
  also have "\<dots> = ?t"
  proof (rule map_idI)
    fix x assume x: "x \<in> set ?t"
    obtain a b where ab: "x = (a, b)" by (cases x)
    show "?g x = x"
    proof (cases "map_of (rev kvs) a")
      case None
      then show ?thesis by (simp add: ab)
    next
      case (Some v)
      with x ab have "b = v" using set_items_last by blast
      with Some show ?thesis by (simp add: ab)
    qed
  qed
  finally show ?thesis .
qed

lemma items_set_items: "items (set_all kvs cb) = set_items kvs (items cb)"
  by (simp add: items_set_all set_items_def)

text \<open>
  C5: the combined property file is not the property file of a run directory. Then a
  second call with the same arguments, on the disk that the first call left, leaves all
  property files, the combined store included, as the first call left them, and ends as
  the first call ended.
\<close>

theorem aggregation_idempotent:
  assumes "list_all (\<lambda>d. path_join d [''properties''] \<noteq>
                         path_join (effective_eval_dir exp_dir eda) [''properties''])
             (run_dirs_of glob exp_dir)"
  shows "prop_files (fst (fetcher_call glob exp_dir eda copy_all wcp
                       (fst (fetcher_call glob exp_dir eda copy_all wcp w)))) =
         prop_files (fst (fetcher_call glob exp_dir eda copy_all wcp w)) \<and>
         snd (fetcher_call glob exp_dir eda copy_all wcp
               (fst (fetcher_call glob exp_dir eda copy_all wcp w))) =
         snd (fetcher_call glob exp_dir eda copy_all wcp w)"
proof (cases "endswith exp_dir ''/''")
  case True
  then show ?thesis by (simp add: fetcher_call_def)
next
  case False
  let ?ed = "effective_eval_dir exp_dir eda"
  let ?cf = "path_join ?ed [''properties'']"
  let ?ds = "run_dirs_of glob exp_dir"
  let ?w1 = "fst (fetcher_call glob exp_dir eda copy_all wcp w)"
  let ?P = "prop_files w"
  let ?P1 = "prop_files ?w1"
  note first = fetcher_call_result [OF False, of glob eda copy_all wcp w]
  note second = fetcher_call_result [OF False, of glob eda copy_all wcp ?w1]
  have agree: "list_all (\<lambda>d. ?P1 (path_join d [''properties'']) = ?P (path_join d [''properties''])) ?ds"
    using assms unfolding first(2) list_all_iff by (auto split: sum.splits)
  have same: "collect ?P1 ?ed ?ds = collect ?P ?ed ?ds"
    using agree by (rule collect_cong)
  show ?thesis
  proof (cases "collect ?P ?ed ?ds")
    case (Inl e)
    with first second same show ?thesis by simp
  next
    case (Inr kvs)
    show ?thesis
    proof (cases wcp)
      case False
      with Inr first second same show ?thesis by simp
    next
      case True
      have p1: "?P1 = ?P(?cf \<mapsto> items (set_all kvs (load_properties ?cf w)))"
        using first(2) Inr True by simp
      have "items (set_all kvs (load_properties ?cf ?w1)) =
            set_items kvs (set_items kvs (items (load_properties ?cf w)))"
        by (simp add: items_set_items load_properties_def p1)
      also have "\<dots> = items (set_all kvs (load_properties ?cf w))"
        by (simp add: set_items_idem items_set_items)
      finally have "?P1(?cf \<mapsto> items (set_all kvs (load_properties ?cf ?w1))) = ?P1"
        using p1 by simp
      with Inr True first(1) second same show ?thesis by simp
    qed
  qed
qed

subsection \<open>Runs without an id\<close>

lemma dir_entry_lacks:
  "lacks_id w d \<Longrightarrow>
   dir_entry (prop_files w) eval_dir d = Inl (Critical (id_message (path_join d [''properties''])))"
  by (auto simp: lacks_id_def prop_file_of_def dir_entry_def read_id_def props_get_def
      logging_critical_def Let_def split: option.splits)

lemma strings_all_str:
  "list_all is_str vs \<Longrightarrow> strings err vs = Inr (map the_str vs)"
  by (induction err vs rule: strings.induct) simp_all

lemma dir_entry_good:
  "good_id w d \<Longrightarrow> dir_entry (prop_files w) eval_dir d = Inr (run_entry w d)"
  by (auto simp: good_id_def id_segments_def prop_file_of_def dir_entry_def read_id_def
      props_get_def Let_def join_dest_dir_def join_run_id_def strings_all_str run_entry_def
      run_key_def run_store_def
      split: option.splits pval.splits if_splits)

lemma collect_good:
  "list_all (good_id w) ds \<Longrightarrow> collect (prop_files w) eval_dir ds = Inr (map (run_entry w) ds)"
  by (induction ds) (simp_all add: dir_entry_good)

lemma collect_append:
  "collect P eval_dir (xs @ ys) =
     (case collect P eval_dir xs of
        Inl e \<Rightarrow> Inl e
      | Inr kvs \<Rightarrow> (case collect P eval_dir ys of Inl e \<Rightarrow> Inl e | Inr kvs' \<Rightarrow> Inr (kvs @ kvs')))"
  by (induction xs) (simp_all split: sum.splits)

lemma collect_lacks:
  "d \<in> set ds \<Longrightarrow> lacks_id w d \<Longrightarrow> \<exists>e. collect (prop_files w) eval_dir ds = Inl e"
  by (induction ds) (auto simp: dir_entry_lacks split: sum.splits)

lemma prop_file_names_dir: "take (length d) (path_join d [''properties'']) = d"
  by (simp add: path_join_def path_join2_def startswith_def)

text \<open>
  C2: the path of the experiment does not end with \<open>/\<close> and one of the run directories
  found has no id (no property file, no \<open>id\<close> key, or an empty \<open>id\<close>). Then the call
  ends with an error, and the property files are what they were before the call: no
  combined store is written. When the run directories before the offending one have
  well-formed ids, the error is the critical record
  \<open>id is not set in <run directory>/properties.\<close>, whose file name starts with the path of
  the run directory.
\<close>

theorem missing_id_aborts:
  assumes "\<not> endswith exp_dir ''/''"
    and "d \<in> set (run_dirs_of glob exp_dir)"
    and "lacks_id w d"
  shows "(\<exists>e. snd (fetcher_call glob exp_dir eda copy_all wcp w) = Some e) \<and>
         prop_files (fst (fetcher_call glob exp_dir eda copy_all wcp w)) = prop_files w \<and>
         (\<forall>pre post. run_dirs_of glob exp_dir = pre @ d # post \<and> list_all (good_id w) pre \<longrightarrow>
            snd (fetcher_call glob exp_dir eda copy_all wcp w) =
              Some (Critical (''id is not set in '' @ path_join d [''properties''] @ ''.''))) \<and>
         take (length d) (path_join d [''properties'']) = d"
proof -
  let ?ed = "effective_eval_dir exp_dir eda"
  note res = fetcher_call_result [OF assms(1), of glob eda copy_all wcp w]
  from collect_lacks [OF assms(2,3)]
  obtain e where e: "collect (prop_files w) ?ed (run_dirs_of glob exp_dir) = Inl e" by blast
  have named: "snd (fetcher_call glob exp_dir eda copy_all wcp w) =
                 Some (Critical (''id is not set in '' @ path_join d [''properties''] @ ''.''))"
    if "run_dirs_of glob exp_dir = pre @ d # post" "list_all (good_id w) pre" for pre post
    unfolding res(1) that(1) collect_append
    by (simp add: collect_good [OF that(2)] dir_entry_lacks [OF assms(3)] id_message_def)
  from e res named show ?thesis by (simp add: prop_file_names_dir)
qed

subsection \<open>The concrete run directories\<close>

lemma three_dirs:
  "run_dirs_of three_glob ''/exp/foo'' =
     [''/exp/foo/runs-00001-00100/00001'', ''/exp/foo/runs-00001-00100/00002'',
      ''/exp/foo/runs-00001-00100/00003'']"
  by code_simp

lemma no_slash: "\<not> endswith ''/exp/foo'' ''/''"
  by code_simp

theorem missing_id_aborts_witness:
  "\<not> endswith ''/exp/foo'' ''/'' \<and>
   ''/exp/foo/runs-00001-00100/00002'' \<in> set (run_dirs_of three_glob ''/exp/foo'') \<and>
   lacks_id broken_runs ''/exp/foo/runs-00001-00100/00002'' \<and>
   snd (fetcher_call three_glob ''/exp/foo'' None False True broken_runs) =
     Some (Critical ''id is not set in /exp/foo/runs-00001-00100/00002/properties.'') \<and>
   prop_files (fst (fetcher_call three_glob ''/exp/foo'' None False True broken_runs)) =
     prop_files broken_runs"
proof -
  let ?d = "''/exp/foo/runs-00001-00100/00002''"
  have h2: "?d \<in> set (run_dirs_of three_glob ''/exp/foo'')" by (simp add: three_dirs)
  have h3: "lacks_id broken_runs ?d" by code_simp
  have split: "run_dirs_of three_glob ''/exp/foo'' =
                 [''/exp/foo/runs-00001-00100/00001''] @ ?d # [''/exp/foo/runs-00001-00100/00003'']"
    by (simp add: three_dirs)
  have good: "list_all (good_id broken_runs) [''/exp/foo/runs-00001-00100/00001'']" by code_simp
  have pf: "path_join ?d [''properties''] = ''/exp/foo/runs-00001-00100/00002/properties''"
    by code_simp
  note m = missing_id_aborts [OF no_slash h2 h3, of None False True]
  from m have keeps: "prop_files (fst (fetcher_call three_glob ''/exp/foo'' None False True broken_runs)) =
     prop_files broken_runs" by blast
  from m have "\<forall>pre post.
         run_dirs_of three_glob ''/exp/foo'' = pre @ ?d # post \<and>
         list_all (good_id broken_runs) pre \<longrightarrow>
         snd (fetcher_call three_glob ''/exp/foo'' None False True broken_runs) =
         Some (Critical (''id is not set in '' @ path_join ?d [''properties''] @ ''.''))"
    by blast
  with split good have "snd (fetcher_call three_glob ''/exp/foo'' None False True broken_runs) =
         Some (Critical (''id is not set in '' @ path_join ?d [''properties''] @ ''.''))"
    by blast
  then have msg: "snd (fetcher_call three_glob ''/exp/foo'' None False True broken_runs) =
     Some (Critical ''id is not set in /exp/foo/runs-00001-00100/00002/properties.'')"
    unfolding pf by simp
  from no_slash h2 h3 msg keeps show ?thesis by blast
qed

theorem aggregation_idempotent_witness:
  "list_all (\<lambda>d. path_join d [''properties''] \<noteq>
                   path_join (effective_eval_dir ''/exp/foo'' None) [''properties''])
     (run_dirs_of three_glob ''/exp/foo'') \<and>
   prop_files (fst (fetcher_call three_glob ''/exp/foo'' None False True
                 (fst (fetcher_call three_glob ''/exp/foo'' None False True three_runs)))) =
   prop_files (fst (fetcher_call three_glob ''/exp/foo'' None False True three_runs))"
proof -
  have h: "list_all (\<lambda>d. path_join d [''properties''] \<noteq>
                   path_join (effective_eval_dir ''/exp/foo'' None) [''properties''])
     (run_dirs_of three_glob ''/exp/foo'')"
    by code_simp
  from aggregation_idempotent [OF h, of False True three_runs] h show ?thesis by simp
qed

subsection \<open>The entries of the combined store\<close>

lemma map_of_replace:
  "map_of (map (\<lambda>(a, b). if a = k then (a, v) else (a, b)) xs) a =
     (if a = k then (if map_of xs k = None then None else Some v) else map_of xs a)"
  by (induction xs) auto

lemma map_of_set_item:
  "map_of (set_item k v xs) a = (if a = k then Some v else map_of xs a)"
proof (cases "k \<in> fst ` set xs")
  case True
  then have "map_of xs k \<noteq> None" by (simp add: map_of_eq_None_iff)
  with True show ?thesis by (auto simp: set_item_def map_of_replace)
next
  case False
  then have "map_of xs k = None" by (simp add: map_of_eq_None_iff)
  with False show ?thesis by (simp add: set_item_def map_add_def split: option.splits)
qed

lemma map_of_set_items:
  "map_of (set_items kvs xs) a =
     (case map_of (rev kvs) a of Some v \<Rightarrow> Some v | None \<Rightarrow> map_of xs a)"
proof (induction kvs rule: rev_induct)
  case Nil
  then show ?case by (simp add: set_items_def)
next
  case (snoc kv kvs)
  then show ?case by (cases kv) (simp add: set_items_snoc map_of_set_item)
qed

lemma merged_lookup:
  assumes "distinct (map (run_key w) ds)" and "d \<in> set ds"
  shows "map_of (merged w f ds) (run_key w d) = Some (PDict (run_store w d))"
proof -
  let ?kvs = "map (run_entry w) ds"
  have fst: "map fst ?kvs = map (run_key w) ds" by (induction ds) (simp_all add: run_entry_def)
  have "map fst (rev ?kvs) = rev (map fst ?kvs)" by (rule rev_map [symmetric])
  then have "distinct (map fst (rev ?kvs))" unfolding fst using assms(1) by simp
  moreover have "(run_key w d, PDict (run_store w d)) \<in> set (rev ?kvs)"
    using assms(2) by (auto simp: run_entry_def)
  ultimately have "map_of (rev ?kvs) (run_key w d) = Some (PDict (run_store w d))"
    by (rule map_of_is_SomeI)
  then show ?thesis by (simp add: merged_def map_of_set_items)
qed

lemma merged_keys:
  "fst ` set (merged w f ds) = fst ` set (items (load_properties f w)) \<union> run_key w ` set ds"
  by (auto simp: merged_def set_items_keys run_entry_def image_image)

text \<open>
  C6, amended: the path of the experiment does not end with \<open>/\<close> and every run directory
  found has a well-formed id. Then the call with \<open>write_combined_props\<close> succeeds and
  writes only the combined file; its keys are the keys that the file had before and the
  ids of the runs joined with \<open>-\<close>; and when these joined ids are distinct, the entry
  under the joined id of a run is the whole property store of the run, its \<open>id\<close>
  included.
\<close>

theorem runs_merged_under_joined_ids:
  assumes "\<not> endswith exp_dir ''/''"
    and "list_all (good_id w) (run_dirs_of glob exp_dir)"
  shows "snd (fetcher_call glob exp_dir eda copy_all True w) = None \<and>
         prop_files (fst (fetcher_call glob exp_dir eda copy_all True w)) =
           (prop_files w)(combined_file exp_dir eda \<mapsto>
              merged w (combined_file exp_dir eda) (run_dirs_of glob exp_dir)) \<and>
         fst ` set (merged w (combined_file exp_dir eda) (run_dirs_of glob exp_dir)) =
           fst ` set (items (load_properties (combined_file exp_dir eda) w)) \<union>
           run_key w ` set (run_dirs_of glob exp_dir) \<and>
         (distinct (map (run_key w) (run_dirs_of glob exp_dir)) \<longrightarrow>
            (\<forall>d \<in> set (run_dirs_of glob exp_dir).
               map_of (merged w (combined_file exp_dir eda) (run_dirs_of glob exp_dir))
                 (run_key w d) = Some (PDict (run_store w d))))"
proof -
  note res = fetcher_call_result [OF assms(1), of glob eda copy_all True w]
  note col = collect_good [OF assms(2), of "effective_eval_dir exp_dir eda"]
  have a: "snd (fetcher_call glob exp_dir eda copy_all True w) = None"
    unfolding res(1) col by simp
  have b: "prop_files (fst (fetcher_call glob exp_dir eda copy_all True w)) =
           (prop_files w)(combined_file exp_dir eda \<mapsto>
              merged w (combined_file exp_dir eda) (run_dirs_of glob exp_dir))"
    unfolding res(2) col by (simp add: combined_file_def merged_def items_set_items)
  have c: "fst ` set (merged w (combined_file exp_dir eda) (run_dirs_of glob exp_dir)) =
           fst ` set (items (load_properties (combined_file exp_dir eda) w)) \<union>
           run_key w ` set (run_dirs_of glob exp_dir)"
    by (rule merged_keys)
  have d: "distinct (map (run_key w) (run_dirs_of glob exp_dir)) \<longrightarrow>
            (\<forall>d \<in> set (run_dirs_of glob exp_dir).
               map_of (merged w (combined_file exp_dir eda) (run_dirs_of glob exp_dir))
                 (run_key w d) = Some (PDict (run_store w d)))"
    using merged_lookup by blast
  show ?thesis by (rule conjI [OF a conjI [OF b conjI [OF c d]]])
qed

lemma three_good: "list_all (good_id three_runs) (run_dirs_of three_glob ''/exp/foo'')"
  by code_simp

lemma three_file: "combined_file ''/exp/foo'' None = ''/exp/foo-eval/properties''"
  by code_simp

lemma three_merged:
  "merged three_runs ''/exp/foo-eval/properties'' (run_dirs_of three_glob ''/exp/foo'') =
     [(''a-1'', PDict (run_props ''a'' ''1'')), (''a-2'', PDict (run_props ''a'' ''2'')),
      (''b-1'', PDict (run_props ''b'' ''1''))]"
  by code_simp

theorem runs_merged_under_joined_ids_witness:
  "\<not> endswith ''/exp/foo'' ''/'' \<and>
   list_all (good_id three_runs) (run_dirs_of three_glob ''/exp/foo'') \<and>
   snd (fetcher_call three_glob ''/exp/foo'' None False True three_runs) = None \<and>
   prop_files (fst (fetcher_call three_glob ''/exp/foo'' None False True three_runs)) =
     (prop_files three_runs)(''/exp/foo-eval/properties'' \<mapsto>
        [(''a-1'', PDict (run_props ''a'' ''1'')), (''a-2'', PDict (run_props ''a'' ''2'')),
         (''b-1'', PDict (run_props ''b'' ''1''))])"
proof -
  note m = runs_merged_under_joined_ids [OF no_slash three_good, of None False]
  from m have a: "snd (fetcher_call three_glob ''/exp/foo'' None False True three_runs) = None"
    by (rule conjunct1)
  from m have "prop_files (fst (fetcher_call three_glob ''/exp/foo'' None False True three_runs)) =
           (prop_files three_runs)(combined_file ''/exp/foo'' None \<mapsto>
              merged three_runs (combined_file ''/exp/foo'' None)
                (run_dirs_of three_glob ''/exp/foo''))"
    by (rule conjunct1 [OF conjunct2])
  then have b: "prop_files (fst (fetcher_call three_glob ''/exp/foo'' None False True three_runs)) =
     (prop_files three_runs)(''/exp/foo-eval/properties'' \<mapsto>
        [(''a-1'', PDict (run_props ''a'' ''1'')), (''a-2'', PDict (run_props ''a'' ''2'')),
         (''b-1'', PDict (run_props ''b'' ''1''))])"
    unfolding three_file three_merged .
  show ?thesis by (rule conjI [OF no_slash conjI [OF three_good conjI [OF a b]]])
qed

text \<open>
  The example of the spec: run directories with the ids a-1, a-2, b-1. When the ids are
  in the property files, each entry of the combined store holds \<open>id\<close> and \<open>coverage\<close>,
  not \<open>coverage\<close> alone; when the property files hold \<open>coverage\<close> alone, the call ends
  with the critical record about the first run directory and writes no combined store.
\<close>

theorem combined_entries_counterexample:
  "prop_files (fst (fetcher_call three_glob ''/exp/foo'' None False True three_runs))
     ''/exp/foo-eval/properties'' =
     Some [(''a-1'', PDict [(''id'', PList [PStr ''a'', PStr ''1'']), (''coverage'', PNum 1)]),
           (''a-2'', PDict [(''id'', PList [PStr ''a'', PStr ''2'']), (''coverage'', PNum 1)]),
           (''b-1'', PDict [(''id'', PList [PStr ''b'', PStr ''1'']), (''coverage'', PNum 1)])] \<and>
   PDict [(''id'', PList [PStr ''a'', PStr ''1'']), (''coverage'', PNum 1)] \<noteq>
     PDict [(''coverage'', PNum 1)] \<and>
   snd (fetcher_call three_glob ''/exp/foo'' None False True bare_runs) =
     Some (Critical ''id is not set in /exp/foo/runs-00001-00100/00001/properties.'') \<and>
   prop_files (fst (fetcher_call three_glob ''/exp/foo'' None False True bare_runs))
     ''/exp/foo-eval/properties'' = None"
  by code_simp

subsection \<open>The assertion on the path and the default destination\<close>

lemma fetch_dir_log:
  "fetch_dir run_dir eval_dir copy_all w = (w', r) \<Longrightarrow> info_log w' = info_log w"
  by (auto simp: fetch_dir_def Let_def fast_updatetree_def make_dirs_def
      split: sum.splits if_splits)

lemma fetch_loop_log:
  "fetch_loop eval_dir copy_all t i ds cb w = (w', r) \<Longrightarrow>
   take (length (info_log w)) (info_log w') = info_log w"
proof (induction ds arbitrary: i cb w)
  case Nil
  then show ?case by simp
next
  case (Cons d ds)
  let ?w1 = "logging_info (progress_message i t) w"
  obtain w2 r2 where fd: "fetch_dir d eval_dir copy_all ?w1 = (w2, r2)" by force
  have k: "info_log w2 = info_log w @ [progress_message i t]"
    using fetch_dir_log [OF fd] by (simp add: logging_info_def)
  have step: "take (length (info_log w)) (info_log w') = info_log w"
    if "take (length (info_log w2)) (info_log w') = info_log w2"
  proof -
    have "take (length (info_log w)) (take (length (info_log w2)) (info_log w')) = info_log w"
      unfolding that by (simp add: k)
    then show ?thesis by (simp add: k min_def)
  qed
  show ?case
  proof (cases r2)
    case (Inl e)
    with Cons.prems fd k show ?thesis by (auto simp: Let_def)
  next
    case (Inr p)
    then obtain run_id ps where p: "r2 = Inr (run_id, ps)" by (cases p) simp
    show ?thesis
    proof (cases cb)
      case None
      with Cons.prems fd p have "fetch_loop eval_dir copy_all t (Suc i) ds None w2 = (w', r)"
        by (simp add: Let_def)
      from step [OF Cons.IH [OF this]] show ?thesis .
    next
      case (Some c)
      show ?thesis
      proof (cases "join_run_id run_id")
        case (Inl e)
        with Cons.prems fd p Some k show ?thesis by (auto simp: Let_def)
      next
        case (Inr key)
        with Cons.prems fd p Some
        have "fetch_loop eval_dir copy_all t (Suc i) ds
                (Some (props_set key (PDict (items ps)) c)) w2 = (w', r)"
          by (simp add: Let_def)
        from step [OF Cons.IH [OF this]] show ?thesis .
      qed
    qed
  qed
qed

lemma strings_error: "strings err vs = Inl e \<Longrightarrow> e = err"
  by (induction err vs rule: strings.induct) (auto split: sum.splits)

lemma elements_error: "elements v = Inl e \<Longrightarrow> e = TypeError"
  by (cases v) auto

lemma dir_entry_no_assert: "dir_entry P eval_dir d \<noteq> Inl AssertionError"
  by (auto simp: dir_entry_def Let_def read_id_def logging_critical_def join_dest_dir_def
      join_run_id_def split: sum.splits option.splits if_splits
      dest: strings_error elements_error)

lemma collect_no_assert: "collect P eval_dir ds \<noteq> Inl AssertionError"
  by (induction ds) (auto simp: dir_entry_no_assert split: sum.splits)

lemma fetcher_call_effects:
  assumes "\<not> endswith exp_dir ''/''"
  shows "take (Suc (length (info_log w)))
           (info_log (fst (fetcher_call glob exp_dir eda copy_all wcp w))) =
         info_log w @ [fetching_message exp_dir (effective_eval_dir exp_dir eda)]"
    and "snd (fetcher_call glob exp_dir eda copy_all wcp w) = None \<Longrightarrow>
         last (made_dirs (fst (fetcher_call glob exp_dir eda copy_all wcp w))) =
           effective_eval_dir exp_dir eda"
proof -
  let ?ed = "effective_eval_dir exp_dir eda"
  let ?cf = "path_join ?ed [''properties'']"
  let ?ds = "run_dirs_of glob exp_dir"
  let ?w1 = "logging_info (fetching_message exp_dir ?ed) w"
  let ?cb = "if wcp then Some (load_properties ?cf ?w1) else None"
  obtain w2 r where loop: "fetch_loop ?ed copy_all (length ?ds) 1 ?ds ?cb ?w1 = (w2, r)" by force
  have l1: "info_log ?w1 = info_log w @ [fetching_message exp_dir ?ed]"
    by (simp add: logging_info_def)
  have l2: "take (Suc (length (info_log w))) (info_log w2) =
              info_log w @ [fetching_message exp_dir ?ed]"
    using fetch_loop_log [OF loop] by (simp add: l1)
  have call: "fetcher_call glob exp_dir eda copy_all wcp w =
                (case r of
                   Inl err \<Rightarrow> (w2, Some err)
                 | Inr c \<Rightarrow>
                     (case c of
                        None \<Rightarrow> (make_dirs ?ed w2, None)
                      | Some cp \<Rightarrow> (props_write cp (make_dirs ?ed w2), None)))"
    using assms loop by (simp add: fetcher_call_def Let_def)
  show "take (Suc (length (info_log w)))
           (info_log (fst (fetcher_call glob exp_dir eda copy_all wcp w))) =
         info_log w @ [fetching_message exp_dir ?ed]"
    unfolding call using l2
    by (simp add: props_write_def make_dirs_def split: sum.splits option.splits)
  show "last (made_dirs (fst (fetcher_call glob exp_dir eda copy_all wcp w))) = ?ed"
    if "snd (fetcher_call glob exp_dir eda copy_all wcp w) = None"
    using that unfolding call
    by (simp add: props_write_def make_dirs_def split: sum.splits option.splits)
qed

text \<open>
  C10: a path of the experiment that ends with \<open>/\<close> is rejected by the assertion, and
  nothing is logged, made or written. A path that does not end with \<open>/\<close> never fails
  the assertion; with no destination given the destination is the path with \<open>-eval\<close>
  appended: it is the destination in the first record logged, the last directory made
  on success, and the directory of the combined file.
\<close>

theorem trailing_slash_rejected:
  "(endswith exp_dir ''/'' \<longrightarrow>
      fetcher_call glob exp_dir eda copy_all wcp w = (w, Some AssertionError)) \<and>
   (\<not> endswith exp_dir ''/'' \<longrightarrow>
      snd (fetcher_call glob exp_dir eda copy_all wcp w) \<noteq> Some AssertionError \<and>
      effective_eval_dir exp_dir None = exp_dir @ ''-eval'' \<and>
      take (Suc (length (info_log w)))
        (info_log (fst (fetcher_call glob exp_dir None copy_all wcp w))) =
        info_log w @ [fetching_message exp_dir (exp_dir @ ''-eval'')] \<and>
      (snd (fetcher_call glob exp_dir None copy_all wcp w) = None \<longrightarrow>
         last (made_dirs (fst (fetcher_call glob exp_dir None copy_all wcp w))) =
           exp_dir @ ''-eval'' \<and>
         (wcp \<longrightarrow> prop_files (fst (fetcher_call glob exp_dir None copy_all wcp w))
                    (path_join (exp_dir @ ''-eval'') [''properties'']) \<noteq> None)))"
proof -
  have ed: "effective_eval_dir exp_dir None = exp_dir @ ''-eval''"
    by (simp add: effective_eval_dir_def)
  have a: "fetcher_call glob exp_dir eda copy_all wcp w = (w, Some AssertionError)"
    if "endswith exp_dir ''/''"
    using that by (simp add: fetcher_call_def)
  have b: "snd (fetcher_call glob exp_dir eda copy_all wcp w) \<noteq> Some AssertionError"
    if n: "\<not> endswith exp_dir ''/''"
    unfolding fetcher_call_result(1) [OF n]
    using collect_no_assert [of "prop_files w" "effective_eval_dir exp_dir eda"
        "run_dirs_of glob exp_dir"]
    by (auto split: sum.splits)
  have c: "take (Suc (length (info_log w)))
        (info_log (fst (fetcher_call glob exp_dir None copy_all wcp w))) =
        info_log w @ [fetching_message exp_dir (exp_dir @ ''-eval'')]"
    if n: "\<not> endswith exp_dir ''/''"
    using fetcher_call_effects(1) [OF n, of w glob None copy_all wcp] unfolding ed .
  have d: "last (made_dirs (fst (fetcher_call glob exp_dir None copy_all wcp w))) =
           exp_dir @ ''-eval''"
    if n: "\<not> endswith exp_dir ''/''"
      and s: "snd (fetcher_call glob exp_dir None copy_all wcp w) = None"
    using fetcher_call_effects(2) [OF n s] unfolding ed .
  have e: "prop_files (fst (fetcher_call glob exp_dir None copy_all wcp w))
             (path_join (exp_dir @ ''-eval'') [''properties'']) \<noteq> None"
    if n: "\<not> endswith exp_dir ''/''"
      and s: "snd (fetcher_call glob exp_dir None copy_all wcp w) = None" and wcp
    using s \<open>wcp\<close> unfolding fetcher_call_result [OF n] ed
    by (simp split: sum.splits)
  from a b c d e ed show ?thesis by blast
qed

lemma slash: "endswith ''/exp/foo/'' ''/''"
  by code_simp

lemma three_ok: "snd (fetcher_call three_glob ''/exp/foo'' None False True three_runs) = None"
  by code_simp

theorem trailing_slash_rejected_witness:
  "endswith ''/exp/foo/'' ''/'' \<and>
   fetcher_call three_glob ''/exp/foo/'' None False True three_runs =
     (three_runs, Some AssertionError) \<and>
   \<not> endswith ''/exp/foo'' ''/'' \<and>
   snd (fetcher_call three_glob ''/exp/foo'' None False True three_runs) = None \<and>
   last (made_dirs (fst (fetcher_call three_glob ''/exp/foo'' None False True three_runs))) =
     ''/exp/foo-eval'' \<and>
   prop_files (fst (fetcher_call three_glob ''/exp/foo'' None False True three_runs))
     (path_join ''/exp/foo-eval'' [''properties'']) \<noteq> None"
proof -
  note t1 = trailing_slash_rejected [of "''/exp/foo/''" three_glob None False True three_runs]
  note t2 = trailing_slash_rejected [of "''/exp/foo''" three_glob None False True three_runs]
  from t1 slash have a: "fetcher_call three_glob ''/exp/foo/'' None False True three_runs =
     (three_runs, Some AssertionError)"
    by blast
  from t2 no_slash three_ok
  have b: "last (made_dirs (fst (fetcher_call three_glob ''/exp/foo'' None False True three_runs))) =
     ''/exp/foo'' @ ''-eval''"
    by blast
  from t2 no_slash three_ok
  have c: "prop_files (fst (fetcher_call three_glob ''/exp/foo'' None False True three_runs))
     (path_join (''/exp/foo'' @ ''-eval'') [''properties'']) \<noteq> None"
    by blast
  from a b c slash no_slash three_ok show ?thesis by simp
qed

end
